theory Spec2Isabelle
  imports Complex_Main
begin

section \<open>Strings\<close>

text \<open>
  A Python \<open>str\<close> is modelled as a \<open>string\<close>, one \<open>char\<close> per code point. The model
  therefore covers the strings whose code points are below 256; on these the regular
  expression class \<open>\d\<close> is exactly the ASCII digits.
\<close>

definition startswith :: "string \<Rightarrow> string \<Rightarrow> bool" where
  "startswith s p = (take (length p) s = p)"

definition in_range :: "nat \<Rightarrow> nat \<Rightarrow> char \<Rightarrow> bool" where
  "in_range lo hi c = (lo \<le> of_char c \<and> (of_char c :: nat) \<le> hi)"

definition is_digit :: "char \<Rightarrow> bool" where
  "is_digit c = in_range 0x30 0x39 c"

section \<open>app/utils.py\<close>

definition TWILIO_TEST_PREFIX :: string where
  "TWILIO_TEST_PREFIX = ''+1500''"

record NumberValidationResult =
  nv_number :: string
  is_valid :: bool
  reason :: "string option"

text \<open>
  The tail of \<open>INDIAN_NUMBER_REGEX\<close>, \<open>([6-9]\d{9})$\<close>, matched at the start of \<open>s\<close>:
  one character in \<open>6..9\<close>, nine digits, then the end of the string or a single newline
  that ends the string (Python's \<open>$\<close>). The result is group 1.
\<close>

definition match_subscriber :: "string \<Rightarrow> string option" where
  "match_subscriber s =
     (if 10 \<le> length s \<and> in_range 0x36 0x39 (hd s) \<and> list_all is_digit (take 9 (tl s))
         \<and> (drop 10 s = [] \<or> drop 10 s = [CHR 0x0A])
      then Some (take 10 s) else None)"

text \<open>
  \<open>INDIAN_NUMBER_REGEX.match\<close>: \<open>^(?:\+91|0)?([6-9]\d{9})$\<close>. The alternatives of the
  optional group are tried in the order of the pattern, the empty one last.
\<close>

definition INDIAN_NUMBER_REGEX_match :: "string \<Rightarrow> string option" where
  "INDIAN_NUMBER_REGEX_match s =
     (case (if startswith s ''+91'' then match_subscriber (drop 3 s) else None) of
        Some g \<Rightarrow> Some g
      | None \<Rightarrow>
          (case (if startswith s ''0'' then match_subscriber (drop 1 s) else None) of
             Some g \<Rightarrow> Some g
           | None \<Rightarrow> match_subscriber s))"

definition indian_reason :: string where
  "indian_reason = ''Indian numbers detected. Autodialer only places calls to Twilio test '' @
     ''numbers (starting with +1500...) for safety.''"

definition invalid_reason :: string where
  "invalid_reason =
     ''Invalid phone number format. Provide Twilio test numbers e.g. +15005550006.''"

definition validate_number :: "string \<Rightarrow> NumberValidationResult" where
  "validate_number num =
     (if startswith num TWILIO_TEST_PREFIX then
        \<lparr>nv_number = num, is_valid = True, reason = None\<rparr>
      else
        (case INDIAN_NUMBER_REGEX_match num of
           Some g \<Rightarrow>
             \<lparr>nv_number = ''+91'' @ g, is_valid = False, reason = Some indian_reason\<rparr>
         | None \<Rightarrow>
             \<lparr>nv_number = num, is_valid = False, reason = Some invalid_reason\<rparr>))"

subsection \<open>strip_ansi\<close>

text \<open>
  \<open>ANSI_ESCAPE_REGEX = \x1B\[[0-?]*[ -/]*[@-~]\<close>. The three character classes are
  disjoint, so the greedy runs are the only way to match: after \<open>ESC [\<close>, the longest run
  of parameter characters, the longest run of intermediate characters, then one final
  character. \<open>match_csi s\<close> matches the pattern at the start of \<open>s\<close> and returns what follows
  the match.
\<close>

definition ESC :: char where
  "ESC = CHR 0x1B"

definition match_csi :: "string \<Rightarrow> string option" where
  "match_csi s =
     (case s of
        c0 # c1 # r \<Rightarrow>
          (if c0 = ESC \<and> c1 = CHR ''['' then
             (case dropWhile (in_range 0x20 0x2F) (dropWhile (in_range 0x30 0x3F) r) of
                f # rest \<Rightarrow> (if in_range 0x40 0x7E f then Some rest else None)
              | [] \<Rightarrow> None)
           else None)
      | _ \<Rightarrow> None)"

text \<open>
  \<open>ANSI_ESCAPE_REGEX.sub("", value)\<close>: one pass from the left; where the pattern matches,
  the match is dropped and the scan goes on after it, elsewhere the character is kept.
  A match is never empty, so the scan ends.
\<close>

function sub_csi :: "string \<Rightarrow> string" where
  "sub_csi [] = []"
| "sub_csi (c # cs) =
     (case match_csi (c # cs) of
        Some rest \<Rightarrow> sub_csi rest
      | None \<Rightarrow> c # sub_csi cs)"
  by pat_completeness auto
termination
proof (relation "measure length")
  show "wf (measure length)" by simp
next
  fix c :: char and cs rest :: string
  assume m: "match_csi (c # cs) = Some rest"
  then obtain c1 r f where cs: "cs = c1 # r"
    and d: "dropWhile (in_range 0x20 0x2F) (dropWhile (in_range 0x30 0x3F) r) = f # rest"
    by (auto simp: match_csi_def split: list.splits if_splits)
  have "length (dropWhile (in_range 0x20 0x2F) (dropWhile (in_range 0x30 0x3F) r)) \<le> length r"
    by (meson length_dropWhile_le order_trans)
  with d have "length rest < length r" by simp
  with cs show "(rest, c # cs) \<in> measure length" by simp
next
  fix c :: char and cs :: string
  show "(cs, c # cs) \<in> measure length" by simp
qed

definition strip_ansi :: "string option \<Rightarrow> string option" where
  "strip_ansi v =
     (case v of
        None \<Rightarrow> None
      | Some s \<Rightarrow> (if s = [] then Some s else Some (sub_csi s)))"

section \<open>app/models/call_log.py\<close>

datatype CallStatus = QUEUED | IN_PROGRESS | SUCCESS | FAILED | SKIPPED

record CallLog =
  log_id :: int
  log_number :: string
  log_message :: "string option"
  status :: CallStatus
  duration :: "int option"
  error :: "string option"
  call_sid :: "string option"
  created_at :: real
  updated_at :: real

text \<open>\<open>CallLog.mark\<close>; \<open>now\<close> is the value of \<open>datetime.utcnow()\<close>.\<close>

definition mark ::
  "CallStatus \<Rightarrow> int option \<Rightarrow> string option \<Rightarrow> string option \<Rightarrow> real \<Rightarrow> CallLog \<Rightarrow> CallLog"
where
  "mark st dur err csid now entry =
     entry\<lparr>status := st,
         duration := (case dur of Some d \<Rightarrow> Some d | None \<Rightarrow> duration entry),
         error := (case err of Some e \<Rightarrow> Some e | None \<Rightarrow> error entry),
         call_sid := (case csid of Some c \<Rightarrow> Some c | None \<Rightarrow> call_sid entry),
         updated_at := now\<rparr>"

section \<open>The world the services run in\<close>

text \<open>
  Exceptions are values. \<open>ValueError\<close> carries \<open>str(exc)\<close>; \<open>StorageError\<close> stands for
  any exception raised by the database session.
\<close>

datatype exn = ValueError string | StorageError

text \<open>
  What an observer of a run sees, in order: a committed status change of a record, a
  completed \<open>asyncio.sleep\<close>, and a call of \<open>TwilioService.place_call\<close> with its number
  and message.
\<close>

datatype event =
    Committed int CallStatus
  | Slept real
  | PlaceCall string string

text \<open>
  \<open>rows\<close> is the committed content of the table \<open>calls\<close>, keyed by primary key.
  \<open>next_id\<close> is the key the database gives to the next inserted row. The column \<open>id\<close> is
  an integer primary key of a table of the default sqlite database (\<open>DATABASE_URL\<close> in
  \<open>app/main.py\<close>): the key of a new row is one more than the largest key in the table, and
  1 in the empty table. So the key of a deleted highest row is given again, and so is the
  key of an insert that was rolled back.
  \<open>clock\<close> is the time in seconds; only \<open>asyncio.sleep\<close> advances it. Which database
  operations fail is not decided by the program: \<open>faults\<close> is the schedule, one entry
  per operation (\<open>True\<close>: the operation raises), no fault once it is used up.
  \<open>requests\<close> counts the requests sent to the Twilio client, and \<open>trace\<close> records
  each event with the time it happened at.
\<close>

record world =
  rows :: "int \<rightharpoonup> CallLog"
  next_id :: int
  clock :: real
  faults :: "bool list"
  requests :: nat
  trace :: "(real \<times> event) list"

definition log_event :: "event \<Rightarrow> world \<Rightarrow> world" where
  "log_event e w = w\<lparr>trace := trace w @ [(clock w, e)]\<rparr>"

definition asyncio_sleep :: "real \<Rightarrow> world \<Rightarrow> world" where
  "asyncio_sleep d w = log_event (Slept d) (w\<lparr>clock := clock w + d\<rparr>)"

text \<open>One database operation: it consumes the next entry of the fault schedule.\<close>

definition storage_op :: "world \<Rightarrow> (exn + unit) \<times> world" where
  "storage_op w =
     (case faults w of
        [] \<Rightarrow> (Inr (), w)
      | f # fs \<Rightarrow> (if f then Inl StorageError else Inr (), w\<lparr>faults := fs\<rparr>))"

text \<open>\<open>session.get(CallLog, call_id)\<close> in a new session.\<close>

definition session_get :: "int \<Rightarrow> world \<Rightarrow> (exn + CallLog option) \<times> world" where
  "session_get call_id w =
     (case storage_op w of
        (Inl e, w1) \<Rightarrow> (Inl e, w1)
      | (Inr _, w1) \<Rightarrow> (Inr (rows w1 call_id), w1))"

text \<open>
  \<open>session.commit()\<close> after a record was changed by \<open>mark\<close>: the record is written
  (\<open>write_row\<close>: the row with its primary key gets the new content), or the commit raises
  and the table is as before.
\<close>

definition write_row :: "CallLog \<Rightarrow> world \<Rightarrow> world" where
  "write_row entry w =
     log_event (Committed (log_id entry) (status entry))
       (w\<lparr>rows := (rows w)(log_id entry \<mapsto> entry)\<rparr>)"

definition session_commit :: "CallLog \<Rightarrow> world \<Rightarrow> (exn + unit) \<times> world" where
  "session_commit entry w =
     (case storage_op w of
        (Inl e, w1) \<Rightarrow> (Inl e, w1)
      | (Inr _, w1) \<Rightarrow> (Inr (), write_row entry w1))"

section \<open>app/services/twilio_service.py\<close>

record CallResult =
  success :: bool
  sid :: "string option"
  result_duration :: "int option"
  result_error :: "string option"

text \<open>
  \<open>self._client.calls.create\<close> belongs to the Twilio library: it returns a call, of which
  \<open>sid\<close> and \<open>duration\<close> are read, or raises \<open>TwilioRestException\<close> or another
  \<open>Exception\<close>; both carry \<open>str(exc)\<close>. The outcome may depend on the number of the
  request and on the arguments \<open>twiml\<close>, \<open>to\<close> and \<open>from_\<close>.
\<close>

datatype client_outcome =
    Created "string option" "int option"
  | TwilioRestException string
  | OtherException string

record TwilioService =
  from_number :: string
  calls_create :: "nat \<Rightarrow> string \<Rightarrow> string \<Rightarrow> string \<Rightarrow> client_outcome"

definition test_mode_reason :: string where
  "test_mode_reason =
     ''Only Twilio test numbers are permitted. Use numbers beginning with +1500.''"

definition ensure_test_mode :: "string \<Rightarrow> exn + unit" where
  "ensure_test_mode num =
     (if \<not> startswith num TWILIO_TEST_PREFIX then Inl (ValueError test_mode_reason)
      else Inr ())"

definition twiml_of :: "string \<Rightarrow> string" where
  "twiml_of message =
     ''<Response><Say voice='' @ [CHR 0x27] @ ''Polly.Joanna'' @ [CHR 0x27] @ ''>'' @ message @
     ''</Say></Response>''"

definition place_call ::
  "TwilioService \<Rightarrow> string \<Rightarrow> string \<Rightarrow> world \<Rightarrow> (exn + CallResult) \<times> world"
where
  "place_call svc to_number message w0 =
     (let w = log_event (PlaceCall to_number message) w0 in
      case ensure_test_mode to_number of
        Inl e \<Rightarrow> (Inl e, w)
      | Inr _ \<Rightarrow>
          (let w1 = w\<lparr>requests := requests w + 1\<rparr> in
           case calls_create svc (requests w) (twiml_of message) to_number (from_number svc) of
             Created s d \<Rightarrow>
               (Inr \<lparr>success = True, sid = s, result_duration = d, result_error = None\<rparr>, w1)
           | TwilioRestException text \<Rightarrow>
               (Inr \<lparr>success = False, sid = None, result_duration = None,
                     result_error = strip_ansi (Some text)\<rparr>, w1)
           | OtherException text \<Rightarrow>
               (Inr \<lparr>success = False, sid = None, result_duration = None,
                     result_error = strip_ansi (Some (''Unexpected error: '' @ text))\<rparr>, w1)))"

section \<open>app/services/call_manager.py\<close>

definition RATE_LIMIT_SECONDS :: real where
  "RATE_LIMIT_SECONDS = 2.5"

record CallTask =
  task_id :: int
  task_number :: string
  task_message :: string

text \<open>
  \<open>session.flush()\<close> after \<open>session.add(log)\<close>: the row is inserted in the open
  transaction and gets its primary key and its column defaults. \<open>pending\<close> are the rows
  already inserted in this transaction; their keys follow the largest key of the table, so
  the new key is \<open>next_id\<close> plus their number. The table itself is not changed before the
  commit.
\<close>

definition session_flush ::
  "string \<Rightarrow> string \<Rightarrow> CallLog list \<Rightarrow> world \<Rightarrow> (exn + CallLog) \<times> world"
where
  "session_flush num message pending w =
     (case storage_op w of
        (Inl e, w1) \<Rightarrow> (Inl e, w1)
      | (Inr _, w1) \<Rightarrow>
          (Inr \<lparr>log_id = next_id w1 + int (length pending), log_number = num,
                log_message = Some message,
                status = QUEUED, duration = None, error = None, call_sid = None,
                created_at = clock w1, updated_at = clock w1\<rparr>,
           w1))"

text \<open>
  The loop of \<open>enqueue_calls\<close>. \<open>pending\<close> are the rows inserted in the open transaction,
  oldest first. An exception leaves the \<open>async with\<close> block: the session is closed and
  its transaction is rolled back, so nothing of \<open>pending\<close> reaches the table.
\<close>

fun enqueue_loop ::
  "string list \<Rightarrow> string \<Rightarrow> CallLog list \<Rightarrow> CallTask list \<Rightarrow> world
     \<Rightarrow> (exn + CallLog list \<times> CallTask list) \<times> world"
where
  "enqueue_loop [] message pending tasks w = (Inr (pending, tasks), w)"
| "enqueue_loop (num # nums) message pending tasks w =
     (case session_flush num message pending w of
        (Inl e, w1) \<Rightarrow> (Inl e, w1)
      | (Inr entry, w1) \<Rightarrow>
          enqueue_loop nums message (pending @ [entry])
            (tasks @ [\<lparr>task_id = log_id entry, task_number = log_number entry,
                       task_message = (case log_message entry of None \<Rightarrow> [] | Some m \<Rightarrow> m)\<rparr>])
            w1)"

text \<open>
  \<open>session.commit()\<close> at the end of \<open>enqueue_calls\<close>: all pending rows, or none. After
  the commit the largest key of the table is the key of the last pending row.
\<close>

definition commit_pending :: "CallLog list \<Rightarrow> world \<Rightarrow> (exn + unit) \<times> world" where
  "commit_pending pending w =
     (case storage_op w of
        (Inl e, w1) \<Rightarrow> (Inl e, w1)
      | (Inr _, w1) \<Rightarrow>
          (Inr (), (fold write_row pending w1)\<lparr>next_id := next_id w1 + int (length pending)\<rparr>))"

definition enqueue_calls :: "string list \<Rightarrow> string \<Rightarrow> world \<Rightarrow> (exn + CallTask list) \<times> world" where
  "enqueue_calls numbers message w =
     (case enqueue_loop numbers message [] [] w of
        (Inl e, w1) \<Rightarrow> (Inl e, w1)
      | (Inr (pending, tasks), w1) \<Rightarrow>
          (case commit_pending pending w1 of
             (Inl e, w2) \<Rightarrow> (Inl e, w2)
           | (Inr _, w2) \<Rightarrow> (Inr tasks, w2)))"

definition update_status ::
  "int \<Rightarrow> CallStatus \<Rightarrow> string option \<Rightarrow> world \<Rightarrow> (exn + unit) \<times> world"
where
  "update_status call_id st err w =
     (case session_get call_id w of
        (Inl e, w1) \<Rightarrow> (Inl e, w1)
      | (Inr None, w1) \<Rightarrow> (Inr (), w1)
      | (Inr (Some entry), w1) \<Rightarrow>
          session_commit (mark st None err None (clock w1) entry) w1)"

definition finalise :: "int \<Rightarrow> CallResult \<Rightarrow> world \<Rightarrow> (exn + unit) \<times> world" where
  "finalise call_id result w =
     (let st = (if success result then SUCCESS else FAILED) in
      case session_get call_id w of
        (Inl e, w1) \<Rightarrow> (Inl e, w1)
      | (Inr None, w1) \<Rightarrow> (Inr (), w1)
      | (Inr (Some entry), w1) \<Rightarrow>
          session_commit
            (mark st (result_duration result) (result_error result) (sid result) (clock w1) entry)
            w1)"

text \<open>The body of the loop of \<open>execute_call_sequence\<close>, for one task.\<close>

definition process_task :: "TwilioService \<Rightarrow> CallTask \<Rightarrow> world \<Rightarrow> (exn + unit) \<times> world" where
  "process_task svc task w =
     (case update_status (task_id task) IN_PROGRESS None w of
        (Inl e, w1) \<Rightarrow> (Inl e, w1)
      | (Inr _, w1) \<Rightarrow>
          (case place_call svc (task_number task) (task_message task)
                  (asyncio_sleep RATE_LIMIT_SECONDS w1) of
             (Inl (ValueError msg), w2) \<Rightarrow> update_status (task_id task) SKIPPED (Some msg) w2
           | (Inl e, w2) \<Rightarrow> (Inl e, w2)
           | (Inr result, w2) \<Rightarrow> finalise (task_id task) result w2))"

fun execute_call_sequence ::
  "TwilioService \<Rightarrow> CallTask list \<Rightarrow> world \<Rightarrow> (exn + unit) \<times> world"
where
  "execute_call_sequence svc [] w = (Inr (), w)"
| "execute_call_sequence svc (task # tasks) w =
     (case process_task svc task w of
        (Inl e, w1) \<Rightarrow> (Inl e, w1)
      | (Inr _, w1) \<Rightarrow> execute_call_sequence svc tasks w1)"

section \<open>Worlds and services for the examples\<close>

text \<open>An empty table, no fault scheduled, nothing sent and nothing observed yet.\<close>

definition initial_world :: world where
  "initial_world =
     \<lparr>rows = Map.empty, next_id = 1, clock = 0, faults = [], requests = 0, trace = []\<rparr>"

text \<open>
  A service whose client answers its \<open>k\<close>-th request with the \<open>k\<close>-th entry of a script.
\<close>

definition scripted_service :: "client_outcome list \<Rightarrow> TwilioService" where
  "scripted_service script =
     \<lparr>from_number = ''+15005550000'',
      calls_create = (\<lambda>k twiml to frm.
         if k < length script then script ! k else OtherException ''no answer'')\<rparr>"

text \<open>The row that \<open>enqueue_calls\<close> inserts for a number.\<close>

definition queued_entry :: "int \<Rightarrow> string \<Rightarrow> string \<Rightarrow> real \<Rightarrow> CallLog" where
  "queued_entry i num message now =
     \<lparr>log_id = i, log_number = num, log_message = Some message, status = QUEUED,
      duration = None, error = None, call_sid = None, created_at = now, updated_at = now\<rparr>"

text \<open>The world after three numbers were queued in the empty table.\<close>

definition example_batch :: world where
  "example_batch =
     snd (enqueue_calls [''+15005550006'', ''+919876543210'', ''+15005550001''] ''Hello''
            initial_world)"

text \<open>The tasks of the example batch, and a service whose client accepts the first
  request and rejects the second.\<close>

definition example_tasks :: "CallTask list" where
  "example_tasks =
     [\<lparr>task_id = 1, task_number = ''+15005550006'', task_message = ''Hello''\<rparr>,
      \<lparr>task_id = 2, task_number = ''+919876543210'', task_message = ''Hello''\<rparr>,
      \<lparr>task_id = 3, task_number = ''+15005550001'', task_message = ''Hello''\<rparr>]"

definition example_service :: TwilioService where
  "example_service =
     scripted_service [Created (Some ''CA1'') (Some 3), TwilioRestException ''HTTP 400'']"

text \<open>The world after the first task of the example batch was processed.\<close>

definition example_after_first :: world where
  "example_after_first = snd (process_task example_service (hd example_tasks) example_batch)"





section \<open>Properties of records, traces and runs\<close>

definition terminal :: "CallStatus \<Rightarrow> bool" where
  "terminal st = (st = SUCCESS \<or> st = FAILED \<or> st = SKIPPED)"

text \<open>Every row of the table is stored under its own primary key.\<close>

definition keyed :: "world \<Rightarrow> bool" where
  "keyed w = (\<forall>i e. rows w i = Some e \<longrightarrow> log_id e = i)"

text \<open>A record on which no duration, error detail or call sid was ever set.\<close>

definition pristine :: "CallLog \<Rightarrow> bool" where
  "pristine e = (duration e = None \<and> error e = None \<and> call_sid e = None)"

text \<open>
  The invariant of the data model on one record: duration and call sid only on \<open>success\<close>,
  error detail only on \<open>failed\<close> or \<open>skipped\<close>.
\<close>

definition fields_ok :: "CallLog \<Rightarrow> bool" where
  "fields_ok e =
     ((duration e \<noteq> None \<or> call_sid e \<noteq> None \<longrightarrow> status e = SUCCESS) \<and>
      (error e \<noteq> None \<longrightarrow> status e = FAILED \<or> status e = SKIPPED))"

fun is_dispatch :: "event \<Rightarrow> bool" where
  "is_dispatch (PlaceCall n m) = True"
| "is_dispatch _ = False"

text \<open>The times of the calls of \<open>place_call\<close> in a trace, in order.\<close>

definition dispatch_times :: "(real \<times> event) list \<Rightarrow> real list" where
  "dispatch_times tr = map fst (filter (\<lambda>p. is_dispatch (snd p)) tr)"

text \<open>
  The order of events the sequencer may produce: a commit of \<open>in_progress\<close> is directly
  followed by a sleep of \<open>RATE_LIMIT_SECONDS\<close> and that by the call of \<open>place_call\<close>; a
  call of \<open>place_call\<close> occurs nowhere else, and a sleep only directly before one.
\<close>

fun well_sequenced :: "event list \<Rightarrow> bool" where
  "well_sequenced [] = True"
| "well_sequenced (Committed i IN_PROGRESS # Slept d # PlaceCall n m # rest) =
     (d = RATE_LIMIT_SECONDS \<and> well_sequenced rest)"
| "well_sequenced (Committed i IN_PROGRESS # rest) = False"
| "well_sequenced (Committed i st # rest) = well_sequenced rest"
| "well_sequenced (Slept d # PlaceCall n m # rest) =
     (d = RATE_LIMIT_SECONDS \<and> well_sequenced rest)"
| "well_sequenced (e # rest) = False"

text \<open>
  The database operations of the loop body for one task: \<open>session.get\<close> and
  \<open>session.commit\<close> in \<open>_update_status\<close>, and again in \<open>_update_status\<close> or \<open>_finalise\<close>
  after the dispatch; without a record there is no commit.
\<close>

definition storage_ops :: "CallTask \<Rightarrow> world \<Rightarrow> nat" where
  "storage_ops t w = (if rows w (task_id t) = None then 2 else 4)"

section \<open>The application as a transition system\<close>

text \<open>
  The routes of \<open>app/routes\<close> call \<open>enqueue_calls\<close> and hand the returned tasks to
  \<open>execute_call_sequence\<close> as a background task. A state of the application is the world
  together with the batches handed over and not yet finished. A step of the core queues
  a batch, or runs the loop body of one of the batches for its next task; the batch is
  over when its tasks are used up or when an exception leaves the loop.
\<close>

type_synonym system = "world \<times> CallTask list list"

inductive core_step :: "TwilioService \<Rightarrow> system \<Rightarrow> system \<Rightarrow> bool" for svc where
  queued:
    "enqueue_calls numbers message w = (Inr tasks, w1) \<Longrightarrow>
     core_step svc (w, q) (w1, q @ [tasks])"
| not_queued:
    "enqueue_calls numbers message w = (Inl e, w1) \<Longrightarrow> core_step svc (w, q) (w1, q)"
| task_done:
    "process_task svc t w = (Inr (), w1) \<Longrightarrow>
     core_step svc (w, q1 @ (t # ts) # q2) (w1, q1 @ ts # q2)"
| batch_aborted:
    "process_task svc t w = (Inl e, w1) \<Longrightarrow>
     core_step svc (w, q1 @ (t # ts) # q2) (w1, q1 @ q2)"

text \<open>
  What happens outside the core: the database may fail at any later operation, and a
  record may be deleted out of band. After a deletion the next key is again one more than
  the largest key left in the table, 1 if the table is empty.
\<close>

inductive env_step :: "system \<Rightarrow> system \<Rightarrow> bool" where
  faults_change: "env_step (w, q) (w\<lparr>faults := fs\<rparr>, q)"
| row_deleted:
    "(\<forall>j e. ((rows w)(i := None)) j = Some e \<longrightarrow> j < n) \<Longrightarrow>
     n = 1 \<or> ((rows w)(i := None)) (n - 1) \<noteq> None \<Longrightarrow>
     env_step (w, q) (w\<lparr>rows := (rows w)(i := None), next_id := n\<rparr>, q)"

text \<open>
  The states of the application: it starts with an empty table, and the core and the
  environment take steps in any order. \<open>allowed\<close> says which states the environment may
  bring about.
\<close>

inductive reachable :: "(system \<Rightarrow> bool) \<Rightarrow> TwilioService \<Rightarrow> system \<Rightarrow> bool"
  for allowed svc
where
  start: "rows w = Map.empty \<Longrightarrow> next_id w = 1 \<Longrightarrow> reachable allowed svc (w, [])"
| core: "reachable allowed svc s \<Longrightarrow> core_step svc s s' \<Longrightarrow> reachable allowed svc s'"
| env: "reachable allowed svc s \<Longrightarrow> env_step s s' \<Longrightarrow> allowed s' \<Longrightarrow>
        reachable allowed svc s'"



text \<open>
  The next key is what the database makes it: above every key of the table, and one more
  than a key of the table unless it is 1.
\<close>

definition next_key_ok :: "world \<Rightarrow> bool" where
  "next_key_ok w =
     ((\<forall>i e. rows w i = Some e \<longrightarrow> 1 \<le> i \<and> i < next_id w) \<and>
      (next_id w = 1 \<or> rows w (next_id w - 1) \<noteq> None))"


section \<open>Storage, transport and the examples\<close>

lemma storage_op_no_faults: "faults w = [] \<Longrightarrow> storage_op w = (Inr (), w)"
  by (simp add: storage_op_def)

lemma session_get_no_faults: "faults w = [] \<Longrightarrow> session_get i w = (Inr (rows w i), w)"
  by (simp add: session_get_def storage_op_no_faults)

lemma storage_opD:
  "storage_op w = (r, w1) \<Longrightarrow>
   rows w1 = rows w \<and> trace w1 = trace w \<and> clock w1 = clock w \<and>
   requests w1 = requests w \<and> next_id w1 = next_id w"
  by (auto simp: storage_op_def split: list.splits)

lemma update_status_no_faults:
  "faults w = [] \<Longrightarrow>
   update_status i st err w =
     (case rows w i of
        None \<Rightarrow> (Inr (), w)
      | Some e \<Rightarrow>
          (Inr (), log_event (Committed (log_id e) st)
                     (w\<lparr>rows := (rows w)(log_id e \<mapsto> mark st None err None (clock w) e)\<rparr>)))"
  by (simp add: update_status_def session_get_no_faults session_commit_def write_row_def
      storage_op_no_faults mark_def split: option.splits)

lemma finalise_no_faults:
  "faults w = [] \<Longrightarrow>
   finalise i r w =
     (case rows w i of
        None \<Rightarrow> (Inr (), w)
      | Some e \<Rightarrow>
          (Inr (), log_event (Committed (log_id e) (if success r then SUCCESS else FAILED))
                     (w\<lparr>rows := (rows w)(log_id e \<mapsto>
                          mark (if success r then SUCCESS else FAILED) (result_duration r)
                            (result_error r) (sid r) (clock w) e)\<rparr>)))"
  by (simp add: finalise_def session_get_no_faults session_commit_def write_row_def
      storage_op_no_faults mark_def Let_def split: option.splits)

lemma place_call_cases:
  "place_call svc n m w = (out, w') \<Longrightarrow>
   faults w' = faults w \<and> rows w' = rows w \<and> clock w' = clock w \<and> next_id w' = next_id w \<and>
   trace w' = trace w @ [(clock w, PlaceCall n m)] \<and>
   ((\<exists>msg. out = Inl (ValueError msg)) \<or>
    (\<exists>r. out = Inr r \<and> (success r \<longrightarrow> result_error r = None) \<and>
       (\<not> success r \<longrightarrow> result_duration r = None \<and> sid r = None)))"
  by (auto simp: place_call_def Let_def log_event_def ensure_test_mode_def
      split: if_splits client_outcome.splits)

lemma place_call_fst:
  "requests w' = requests w \<Longrightarrow> fst (place_call svc n m w') = fst (place_call svc n m w)"
  by (simp add: place_call_def Let_def log_event_def split: sum.splits client_outcome.splits)

lemma example_batch_unfold:
  "example_batch =
     \<lparr>rows = [1 \<mapsto> queued_entry 1 ''+15005550006'' ''Hello'' 0,
              2 \<mapsto> queued_entry 2 ''+919876543210'' ''Hello'' 0,
              3 \<mapsto> queued_entry 3 ''+15005550001'' ''Hello'' 0],
      next_id = 4, clock = 0, faults = [], requests = 0,
      trace = [(0, Committed 1 QUEUED), (0, Committed 2 QUEUED), (0, Committed 3 QUEUED)]\<rparr>"
  by (simp add: example_batch_def enqueue_calls_def session_flush_def storage_op_def
      commit_pending_def write_row_def initial_world_def log_event_def queued_entry_def)

lemmas run_defs =
  process_task_def update_status_def finalise_def session_get_def session_commit_def
  write_row_def   storage_op_def asyncio_sleep_def log_event_def place_call_def ensure_test_mode_def
  startswith_def TWILIO_TEST_PREFIX_def mark_def scripted_service_def Let_def

lemma match_csi_no_escape: "c \<noteq> ESC \<Longrightarrow> match_csi (c # cs) = None"
  by (simp add: match_csi_def split: list.splits)

lemma sub_csi_no_escape: "ESC \<notin> set s \<Longrightarrow> sub_csi s = s"
proof (induction s)
  case Nil
  show ?case by simp
next
  case (Cons c cs)
  then have "match_csi (c # cs) = None" and "sub_csi cs = cs"
    by (auto intro: match_csi_no_escape)
  then show ?case by simp
qed

lemma strip_ansi_no_escape: "ESC \<notin> set s \<Longrightarrow> strip_ansi (Some s) = Some s"
  by (simp add: strip_ansi_def sub_csi_no_escape)

lemma strip_ansi_http_400: "strip_ansi (Some ''HTTP 400'') = Some ''HTTP 400''"
  by (rule strip_ansi_no_escape) (simp add: ESC_def)


section \<open>The Number Gate\<close>

lemma test_prefix_not_indian:
  "startswith num TWILIO_TEST_PREFIX \<Longrightarrow> INDIAN_NUMBER_REGEX_match num = None"
  by (cases num; cases "tl num")
     (auto simp: startswith_def TWILIO_TEST_PREFIX_def INDIAN_NUMBER_REGEX_match_def
        match_subscriber_def in_range_def)

lemma is_valid_iff_prefix:
  "is_valid (validate_number num) = startswith num TWILIO_TEST_PREFIX"
  by (simp add: validate_number_def split: option.splits)

text \<open>
  C5. \<open>validate_number\<close> is a total function of its argument alone: it returns a verdict
  for every candidate, raises nothing and changes nothing. The verdict has three cases.
  A candidate that starts with \<open>TWILIO_TEST_PREFIX\<close> is accepted as it is. A candidate
  that matches \<open>INDIAN_NUMBER_REGEX\<close> is rejected with the safety reason. Every other
  candidate is rejected, unchanged, with the invalid-format reason. The two reasons
  differ.
\<close>

theorem validate_number_trichotomy:
  "(startswith num TWILIO_TEST_PREFIX \<longrightarrow>
      validate_number num = \<lparr>nv_number = num, is_valid = True, reason = None\<rparr>) \<and>
   (INDIAN_NUMBER_REGEX_match num \<noteq> None \<longrightarrow>
      \<not> is_valid (validate_number num) \<and> reason (validate_number num) = Some indian_reason) \<and>
   (\<not> startswith num TWILIO_TEST_PREFIX \<and> INDIAN_NUMBER_REGEX_match num = None \<longrightarrow>
      validate_number num =
        \<lparr>nv_number = num, is_valid = False, reason = Some invalid_reason\<rparr>) \<and>
   indian_reason \<noteq> invalid_reason"
proof -
  have a: "startswith num TWILIO_TEST_PREFIX \<longrightarrow>
      validate_number num = \<lparr>nv_number = num, is_valid = True, reason = None\<rparr>"
    by (simp add: validate_number_def)
  have b: "INDIAN_NUMBER_REGEX_match num \<noteq> None \<longrightarrow>
      \<not> is_valid (validate_number num) \<and> reason (validate_number num) = Some indian_reason"
    using test_prefix_not_indian [of num] by (auto simp: validate_number_def)
  have c: "\<not> startswith num TWILIO_TEST_PREFIX \<and> INDIAN_NUMBER_REGEX_match num = None \<longrightarrow>
      validate_number num =
        \<lparr>nv_number = num, is_valid = False, reason = Some invalid_reason\<rparr>"
    by (simp add: validate_number_def)
  have d: "indian_reason \<noteq> invalid_reason"
    by (simp add: indian_reason_def invalid_reason_def)
  from a b c d show ?thesis by blast
qed

theorem validate_number_trichotomy_witness:
  "validate_number ''+15005550006'' =
     \<lparr>nv_number = ''+15005550006'', is_valid = True, reason = None\<rparr> \<and>
   INDIAN_NUMBER_REGEX_match ''+919876543210'' \<noteq> None \<and>
   \<not> is_valid (validate_number ''+919876543210'') \<and>
   reason (validate_number ''+919876543210'') = Some indian_reason \<and>
   validate_number ''garbage'' =
     \<lparr>nv_number = ''garbage'', is_valid = False, reason = Some invalid_reason\<rparr>"
proof -
  have p: "startswith ''+15005550006'' TWILIO_TEST_PREFIX"
    by (simp add: startswith_def TWILIO_TEST_PREFIX_def)
  have i: "INDIAN_NUMBER_REGEX_match ''+919876543210'' \<noteq> None"
    by (simp add: INDIAN_NUMBER_REGEX_match_def startswith_def match_subscriber_def
        in_range_def is_digit_def)
  have g: "\<not> startswith ''garbage'' TWILIO_TEST_PREFIX \<and>
           INDIAN_NUMBER_REGEX_match ''garbage'' = None"
    by (simp add: INDIAN_NUMBER_REGEX_match_def startswith_def match_subscriber_def
        TWILIO_TEST_PREFIX_def)
  show ?thesis
    using p i g validate_number_trichotomy [of "''+15005550006''"]
      validate_number_trichotomy [of "''+919876543210''"]
      validate_number_trichotomy [of "''garbage''"]
    by blast
qed

text \<open>
  C10. A number that \<open>validate_number\<close> accepts is returned unchanged and passes
  \<open>ensure_test_mode\<close>; so \<open>place_call\<close> on it never raises the \<open>ValueError\<close> that the
  sequencer turns into \<open>skipped\<close>, whatever the service, the message and the world.
\<close>

theorem gate_accepted_passes_test_mode:
  "is_valid (validate_number num) \<Longrightarrow>
   nv_number (validate_number num) = num \<and>
   ensure_test_mode (nv_number (validate_number num)) = Inr () \<and>
   (\<forall>svc message w. \<exists>r w'.
      place_call svc (nv_number (validate_number num)) message w = (Inr r, w'))"
proof -
  assume v: "is_valid (validate_number num)"
  then have p: "startswith num TWILIO_TEST_PREFIX"
    by (simp add: is_valid_iff_prefix)
  then have n: "nv_number (validate_number num) = num"
    by (simp add: validate_number_def)
  have e: "ensure_test_mode num = Inr ()"
    using p by (simp add: ensure_test_mode_def)
  have "\<exists>r w'. place_call svc num message w = (Inr r, w')" for svc message w
    using e by (simp add: place_call_def Let_def split: client_outcome.splits)
  with n e show ?thesis by simp
qed

theorem gate_accepted_passes_test_mode_witness:
  "is_valid (validate_number ''+15005550006'') \<and>
   ensure_test_mode (nv_number (validate_number ''+15005550006'')) = Inr ()"
proof -
  have v: "is_valid (validate_number ''+15005550006'')"
    by (simp add: validate_number_def startswith_def TWILIO_TEST_PREFIX_def)
  show ?thesis using v gate_accepted_passes_test_mode [OF v] by blast
qed

section \<open>The Call Sequencer, one task\<close>

text \<open>
  C1. A task whose record is in the table as \<open>enqueue_calls\<close> left it (no duration, no
  error detail, no call sid), processed while the storage works: the task ends without an
  exception and the sequencer goes on with the next task. The outcome of the dispatch
  decides the record. A \<open>ValueError\<close> of the transport sets the record to \<open>skipped\<close> with
  the text of the exception as error detail. A result with \<open>success\<close> sets it to
  \<open>success\<close> with the duration and the call sid of the result, the error detail staying
  null. A result without \<open>success\<close> sets it to \<open>failed\<close> with the error of the result,
  the duration and the call sid staying null. The transport raises nothing else.
\<close>

theorem process_task_outcome:
  assumes present: "rows w (task_id t) = Some entry"
    and key: "log_id entry = task_id t"
    and fresh: "duration entry = None" "error entry = None" "call_sid entry = None"
    and nofault: "faults w = []"
  shows "fst (process_task svc t w) = Inr () \<and>
    execute_call_sequence svc (t # ts) w =
      execute_call_sequence svc ts (snd (process_task svc t w)) \<and>
    (case fst (place_call svc (task_number t) (task_message t) w) of
       Inl (ValueError msg) \<Rightarrow>
         rows (snd (process_task svc t w)) (task_id t) =
           Some (entry\<lparr>status := SKIPPED, error := Some msg,
                        updated_at := clock w + RATE_LIMIT_SECONDS\<rparr>)
     | Inl StorageError \<Rightarrow> False
     | Inr r \<Rightarrow>
         (if success r then
            rows (snd (process_task svc t w)) (task_id t) =
              Some (entry\<lparr>status := SUCCESS, duration := result_duration r,
                           call_sid := sid r, error := None,
                           updated_at := clock w + RATE_LIMIT_SECONDS\<rparr>)
          else
            rows (snd (process_task svc t w)) (task_id t) =
              Some (entry\<lparr>status := FAILED, error := result_error r,
                           duration := None, call_sid := None,
                           updated_at := clock w + RATE_LIMIT_SECONDS\<rparr>)))"
proof -
  define w1 where "w1 = snd (update_status (task_id t) IN_PROGRESS None w)"
  define w2 where "w2 = asyncio_sleep RATE_LIMIT_SECONDS w1"
  obtain out w3 where pc: "place_call svc (task_number t) (task_message t) w2 = (out, w3)"
    by (cases "place_call svc (task_number t) (task_message t) w2")
  have u1: "update_status (task_id t) IN_PROGRESS None w = (Inr (), w1)"
    and r1: "rows w1 (task_id t) = Some (entry\<lparr>status := IN_PROGRESS, updated_at := clock w\<rparr>)"
    and f1: "faults w1 = []" and c1: "clock w1 = clock w" and q1: "requests w1 = requests w"
    using present key fresh nofault
    by (simp_all add: w1_def update_status_no_faults log_event_def mark_def)
  have r2: "rows w2 = rows w1" and f2: "faults w2 = []"
    and c2: "clock w2 = clock w + RATE_LIMIT_SECONDS" and q2: "requests w2 = requests w"
    using f1 c1 q1 by (simp_all add: w2_def asyncio_sleep_def log_event_def)
  from place_call_cases [OF pc]
  have f3: "faults w3 = []" and r3: "rows w3 = rows w1"
    and c3: "clock w3 = clock w + RATE_LIMIT_SECONDS"
    and shape: "(\<exists>msg. out = Inl (ValueError msg)) \<or>
      (\<exists>r. out = Inr r \<and> (success r \<longrightarrow> result_error r = None) \<and>
         (\<not> success r \<longrightarrow> result_duration r = None \<and> sid r = None))"
    using f2 r2 c2 by simp_all
  have out: "fst (place_call svc (task_number t) (task_message t) w) = out"
    using place_call_fst [OF q2, of svc "task_number t" "task_message t"] pc by simp
  have pt: "process_task svc t w =
      (case out of
         Inl (ValueError msg) \<Rightarrow> update_status (task_id t) SKIPPED (Some msg) w3
       | Inl e \<Rightarrow> (Inl e, w3)
       | Inr r \<Rightarrow> finalise (task_id t) r w3)"
    using u1 pc by (simp add: process_task_def w2_def)
  from shape show ?thesis
  proof (elim disjE exE conjE)
    fix msg assume o: "out = Inl (ValueError msg)"
    show ?thesis
      using pt o out r1 r3 f3 c3 key fresh
      by (simp add: update_status_no_faults log_event_def mark_def)
  next
    fix r assume o: "out = Inr r"
      and s: "success r \<longrightarrow> result_error r = None"
      and n: "\<not> success r \<longrightarrow> result_duration r = None \<and> sid r = None"
    show ?thesis
      using pt o out r1 r3 f3 c3 key fresh s n
      by (cases "success r")
         (auto simp: finalise_no_faults log_event_def mark_def split: option.splits)
  qed
qed

theorem process_task_outcome_witness:
  "rows example_batch 1 = Some (queued_entry 1 ''+15005550006'' ''Hello'' 0) \<and>
   faults example_batch = [] \<and>
   rows (snd (process_task (scripted_service [Created (Some ''CA1'') (Some 3)])
               \<lparr>task_id = 1, task_number = ''+15005550006'', task_message = ''Hello''\<rparr>
               example_batch)) 1 =
     Some ((queued_entry 1 ''+15005550006'' ''Hello'' 0)
             \<lparr>status := SUCCESS, duration := Some 3, call_sid := Some ''CA1'',
              updated_at := RATE_LIMIT_SECONDS\<rparr>)"
proof -
  let ?t = "\<lparr>task_id = 1, task_number = ''+15005550006'', task_message = ''Hello''\<rparr>"
  let ?e = "queued_entry 1 ''+15005550006'' ''Hello'' 0"
  let ?svc = "scripted_service [Created (Some ''CA1'') (Some 3)]"
  have a: "rows example_batch (task_id ?t) = Some ?e"
    by (simp add: example_batch_unfold)
  have b: "log_id ?e = task_id ?t" "duration ?e = None" "error ?e = None" "call_sid ?e = None"
    by (simp_all add: queued_entry_def)
  have c: "faults example_batch = []"
    by (simp add: example_batch_unfold)
  have d: "fst (place_call ?svc (task_number ?t) (task_message ?t) example_batch) =
      Inr \<lparr>success = True, sid = Some ''CA1'', result_duration = Some 3, result_error = None\<rparr>"
    by (simp add: example_batch_unfold run_defs)
  show ?thesis
    using a c d process_task_outcome [OF a b c, of ?svc "[]"]
    by (simp add: example_batch_unfold queued_entry_def)
qed

text \<open>
  C3, as the code has it. A task whose record is not in the table, processed while the
  storage works: no exception is raised and the table is left as it was, but the task is
  not abandoned. The sequencer still waits \<open>RATE_LIMIT_SECONDS\<close> and still calls
  \<open>place_call\<close> for the task before it goes on with the next task.
\<close>

theorem missing_record_still_dispatched:
  assumes missing: "rows w (task_id t) = None" and nofault: "faults w = []"
  shows "fst (process_task svc t w) = Inr () \<and>
    rows (snd (process_task svc t w)) = rows w \<and>
    trace (snd (process_task svc t w)) =
      trace w @ [(clock w + RATE_LIMIT_SECONDS, Slept RATE_LIMIT_SECONDS),
                 (clock w + RATE_LIMIT_SECONDS, PlaceCall (task_number t) (task_message t))] \<and>
    execute_call_sequence svc (t # ts) w =
      execute_call_sequence svc ts (snd (process_task svc t w))"
proof -
  define w2 where "w2 = asyncio_sleep RATE_LIMIT_SECONDS w"
  obtain out w3 where pc: "place_call svc (task_number t) (task_message t) w2 = (out, w3)"
    by (cases "place_call svc (task_number t) (task_message t) w2")
  have u1: "update_status (task_id t) IN_PROGRESS None w = (Inr (), w)"
    using missing nofault by (simp add: update_status_no_faults)
  have w2: "rows w2 = rows w" "faults w2 = []" "clock w2 = clock w + RATE_LIMIT_SECONDS"
    "trace w2 = trace w @ [(clock w + RATE_LIMIT_SECONDS, Slept RATE_LIMIT_SECONDS)]"
    using nofault by (simp_all add: w2_def asyncio_sleep_def log_event_def)
  from place_call_cases [OF pc]
  have w3: "faults w3 = []" "rows w3 (task_id t) = None" "rows w3 = rows w"
    "trace w3 = trace w @ [(clock w + RATE_LIMIT_SECONDS, Slept RATE_LIMIT_SECONDS),
        (clock w + RATE_LIMIT_SECONDS, PlaceCall (task_number t) (task_message t))]"
    and shape: "(\<exists>msg. out = Inl (ValueError msg)) \<or> (\<exists>r. out = Inr r)"
    using w2 missing by auto
  have pt: "process_task svc t w =
      (case out of
         Inl (ValueError msg) \<Rightarrow> update_status (task_id t) SKIPPED (Some msg) w3
       | Inl e \<Rightarrow> (Inl e, w3)
       | Inr r \<Rightarrow> finalise (task_id t) r w3)"
    using u1 pc by (simp add: process_task_def w2_def)
  have "process_task svc t w = (Inr (), w3)"
    using shape pt w3 by (auto simp: update_status_no_faults finalise_no_faults)
  then show ?thesis using w3 by simp
qed

theorem missing_record_still_dispatched_witness:
  "rows initial_world 7 = None \<and> faults initial_world = [] \<and>
   trace (snd (process_task (scripted_service [])
        \<lparr>task_id = 7, task_number = ''+15005550006'', task_message = ''hi''\<rparr> initial_world)) =
     [(RATE_LIMIT_SECONDS, Slept RATE_LIMIT_SECONDS),
      (RATE_LIMIT_SECONDS, PlaceCall ''+15005550006'' ''hi'')]"
proof -
  have a: "rows initial_world 7 = None" by (simp add: initial_world_def)
  have b: "faults initial_world = []" by (simp add: initial_world_def)
  have c: "rows initial_world
      (task_id \<lparr>task_id = 7, task_number = ''+15005550006'', task_message = ''hi''\<rparr>) = None"
    by (simp add: initial_world_def)
  show ?thesis
    using a b missing_record_still_dispatched [OF c b, of "scripted_service []" "[]"]
    by (simp add: initial_world_def)
qed

text \<open>
  C3, as the claim states it, fails: for a task whose record is not in the table the
  transport is called, and the request reaches the Twilio client.
\<close>

theorem abandoned_task_counterexample:
  "rows initial_world 7 = None \<and>
   fst (execute_call_sequence (scripted_service [Created (Some ''CA1'') (Some 3)])
     [\<lparr>task_id = 7, task_number = ''+15005550006'', task_message = ''hi''\<rparr>]
     initial_world) = Inr () \<and>
   trace (snd (execute_call_sequence (scripted_service [Created (Some ''CA1'') (Some 3)])
     [\<lparr>task_id = 7, task_number = ''+15005550006'', task_message = ''hi''\<rparr>]
     initial_world)) =
     [(2.5, Slept 2.5), (2.5, PlaceCall ''+15005550006'' ''hi'')] \<and>
   requests (snd (execute_call_sequence (scripted_service [Created (Some ''CA1'') (Some 3)])
     [\<lparr>task_id = 7, task_number = ''+15005550006'', task_message = ''hi''\<rparr>]
     initial_world)) = 1"
  by (simp add: initial_world_def run_defs RATE_LIMIT_SECONDS_def)

section \<open>The Outcome Finalizer\<close>

text \<open>
  C8. \<open>finalise\<close> for an identifier that has no record in the table leaves the table and
  the trace as they were, whatever the result passed to it; it raises no exception when
  the lookup itself does not fail, and with no fault scheduled it changes nothing at all.
\<close>

theorem finalise_missing_noop:
  "rows w call_id = None \<Longrightarrow>
   rows (snd (finalise call_id result w)) = rows w \<and>
   trace (snd (finalise call_id result w)) = trace w \<and>
   (fst (storage_op w) = Inr () \<longrightarrow> fst (finalise call_id result w) = Inr ()) \<and>
   (faults w = [] \<longrightarrow> finalise call_id result w = (Inr (), w))"
  by (cases "storage_op w")
     (auto simp: finalise_def session_get_def storage_op_no_faults split: sum.splits
        dest: storage_opD)

theorem finalise_missing_noop_witness:
  "rows initial_world 7 = None \<and>
   fst (storage_op initial_world) = Inr () \<and>
   faults initial_world = [] \<and>
   finalise 7 \<lparr>success = True, sid = Some ''CA1'', result_duration = Some 3,
                result_error = None\<rparr> initial_world = (Inr (), initial_world)"
proof -
  have a: "rows initial_world 7 = None" by (simp add: initial_world_def)
  have b: "faults initial_world = []" by (simp add: initial_world_def)
  have c: "fst (storage_op initial_world) = Inr ()" by (simp add: storage_op_no_faults b)
  show ?thesis using a b c finalise_missing_noop [OF a] by blast
qed

section \<open>The error detail of a failed call\<close>




section \<open>The Task Queue Builder\<close>

lemma session_flush_cases:
  "session_flush num msg pend w = (r, w1) \<Longrightarrow>
   rows w1 = rows w \<and> trace w1 = trace w \<and> clock w1 = clock w \<and> requests w1 = requests w \<and>
   next_id w1 = next_id w \<and>
   (r = Inl StorageError \<or>
    r = Inr (queued_entry (next_id w + int (length pend)) num msg (clock w)))"
  by (cases "storage_op w")
     (auto simp: session_flush_def queued_entry_def storage_op_def
        split: sum.splits list.splits if_splits)

lemma enqueue_loop_Inl:
  "enqueue_loop nums msg pend tasks w = (Inl e, w1) \<Longrightarrow>
   rows w1 = rows w \<and> trace w1 = trace w \<and> clock w1 = clock w \<and> requests w1 = requests w"
proof (induction nums arbitrary: pend tasks w)
  case Nil
  then show ?case by simp
next
  case (Cons num nums)
  obtain r w' where f: "session_flush num msg pend w = (r, w')"
    by (cases "session_flush num msg pend w")
  from session_flush_cases [OF f] Cons.prems f Cons.IH show ?case
    by (auto split: sum.splits)
qed

lemma enqueue_loop_Inr:
  "enqueue_loop nums msg pend tasks w = (Inr (P, T), w1) \<Longrightarrow>
   \<exists>news newt. P = pend @ news \<and> T = tasks @ newt \<and>
     length news = length nums \<and> length newt = length nums \<and>
     (\<forall>k < length nums.
        news ! k =
          queued_entry (next_id w + int (length pend + k)) (nums ! k) msg (clock w) \<and>
        newt ! k = \<lparr>task_id = next_id w + int (length pend + k), task_number = nums ! k,
                    task_message = msg\<rparr>) \<and>
     rows w1 = rows w \<and> next_id w1 = next_id w \<and>
     clock w1 = clock w \<and> trace w1 = trace w \<and> requests w1 = requests w"
proof (induction nums arbitrary: pend tasks w)
  case Nil
  then show ?case by simp
next
  case (Cons num nums)
  obtain r w' where f: "session_flush num msg pend w = (r, w')"
    by (cases "session_flush num msg pend w")
  let ?e = "queued_entry (next_id w + int (length pend)) num msg (clock w)"
  let ?t = "\<lparr>task_id = next_id w + int (length pend), task_number = num, task_message = msg\<rparr>"
  from session_flush_cases [OF f] Cons.prems f
  have r: "r = Inr ?e" and w': "rows w' = rows w" "trace w' = trace w" "clock w' = clock w"
    "requests w' = requests w" "next_id w' = next_id w"
    by auto
  have rec: "enqueue_loop nums msg (pend @ [?e]) (tasks @ [?t]) w' = (Inr (P, T), w1)"
    using Cons.prems f r by (simp add: queued_entry_def)
  from Cons.IH [OF rec] obtain news newt where ih:
    "P = (pend @ [?e]) @ news" "T = (tasks @ [?t]) @ newt"
    "length news = length nums" "length newt = length nums"
    "\<forall>k < length nums.
        news ! k =
          queued_entry (next_id w' + int (length (pend @ [?e]) + k)) (nums ! k) msg (clock w') \<and>
        newt ! k = \<lparr>task_id = next_id w' + int (length (pend @ [?e]) + k),
                    task_number = nums ! k, task_message = msg\<rparr>"
    "rows w1 = rows w'" "next_id w1 = next_id w'"
    "clock w1 = clock w'" "trace w1 = trace w'" "requests w1 = requests w'"
    by blast
  have nth: "(?e # news) ! k =
          queued_entry (next_id w + int (length pend + k)) ((num # nums) ! k) msg (clock w) \<and>
        (?t # newt) ! k = \<lparr>task_id = next_id w + int (length pend + k),
                    task_number = (num # nums) ! k, task_message = msg\<rparr>"
    if "k < length (num # nums)" for k
  proof (cases k)
    case 0
    then show ?thesis by simp
  next
    case (Suc j)
    with that have "j < length nums" by simp
    with ih(5) w' Suc show ?thesis by (simp add: add.assoc add.commute)
  qed
  show ?case
    apply (rule exI [of _ "?e # news"], rule exI [of _ "?t # newt"])
    using ih w' nth by simp
qed

lemma enqueue_loop_no_faults:
  "faults w = [] \<Longrightarrow>
   \<exists>P T w1. enqueue_loop nums msg pend tasks w = (Inr (P, T), w1) \<and> faults w1 = []"
proof (induction nums arbitrary: pend tasks w)
  case Nil
  then show ?case by simp
next
  case (Cons num nums)
  then show ?case
    by (simp add: session_flush_def storage_op_no_faults)
qed

lemma commit_rows_other:
  "i \<notin> log_id ` set P \<Longrightarrow> rows (fold write_row P v) i = rows v i"
  by (induction P arbitrary: v) (auto simp: write_row_def log_event_def)

lemma commit_rows_new:
  "distinct (map log_id P) \<Longrightarrow> e \<in> set P \<Longrightarrow> rows (fold write_row P v) (log_id e) = Some e"
proof (induction P arbitrary: v)
  case Nil
  then show ?case by simp
next
  case (Cons a P)
  show ?case
  proof (cases "e \<in> set P")
    case True
    with Cons show ?thesis by simp
  next
    case False
    with Cons.prems have ea: "e = a" and ni: "log_id a \<notin> log_id ` set P" by auto
    have "rows (write_row a v) (log_id a) = Some a"
      by (simp add: write_row_def log_event_def)
    with commit_rows_other [OF ni, of "write_row a v"] show ?thesis
      by (simp add: ea)
  qed
qed

lemma enqueue_calls_Inr:
  assumes ok: "fst (enqueue_calls numbers message w) = Inr tasks"
  shows "length tasks = length numbers"
    and "k < length numbers \<Longrightarrow>
         tasks ! k = \<lparr>task_id = next_id w + int k, task_number = numbers ! k,
                      task_message = message\<rparr>"
    and "k < length numbers \<Longrightarrow>
         rows (snd (enqueue_calls numbers message w)) (next_id w + int k) =
           Some (queued_entry (next_id w + int k) (numbers ! k) message (clock w))"
    and "i < next_id w \<Longrightarrow> rows (snd (enqueue_calls numbers message w)) i = rows w i"
proof -
  obtain r w1 where l: "enqueue_loop numbers message [] [] w = (r, w1)"
    by (cases "enqueue_loop numbers message [] [] w")
  from ok l obtain P T where r: "r = Inr (P, T)"
    by (cases r) (auto simp: enqueue_calls_def)
  obtain r2 w2 where c: "commit_pending P w1 = (r2, w2)"
    by (cases "commit_pending P w1")
  from ok l r c have r2: "r2 = Inr ()" and T: "T = tasks"
    and res: "enqueue_calls numbers message w = (Inr tasks, w2)"
    by (auto simp: enqueue_calls_def split: sum.splits)
  from enqueue_loop_Inr [OF l [unfolded r]] obtain news newt where
    "P = [] @ news" "T = [] @ newt" "length news = length numbers"
    "length newt = length numbers"
    "\<forall>k < length numbers.
        news ! k =
          queued_entry (next_id w + int (length ([] :: CallLog list) + k)) (numbers ! k)
            message (clock w) \<and>
        newt ! k = \<lparr>task_id = next_id w + int (length ([] :: CallLog list) + k),
                    task_number = numbers ! k, task_message = message\<rparr>"
    "rows w1 = rows w"
    by blast
  then have len: "length P = length numbers" "length T = length numbers"
    and nth: "\<And>k. k < length numbers \<Longrightarrow>
        P ! k = queued_entry (next_id w + int k) (numbers ! k) message (clock w) \<and>
        T ! k = \<lparr>task_id = next_id w + int k, task_number = numbers ! k,
                  task_message = message\<rparr>"
    and w1: "rows w1 = rows w"
    by simp_all
  have ids: "map log_id P = map (\<lambda>k. next_id w + int k) [0..<length numbers]"
  proof (rule nth_equalityI)
    show "length (map log_id P) = length (map (\<lambda>k. next_id w + int k) [0..<length numbers])"
      using len by simp
    show "map log_id P ! i = map (\<lambda>k. next_id w + int k) [0..<length numbers] ! i"
      if "i < length (map log_id P)" for i
      using that len nth [of i] by (simp add: queued_entry_def)
  qed
  have dist: "distinct (map log_id P)"
    unfolding ids by (simp add: distinct_map inj_on_def)
  obtain w1' where so: "storage_op w1 = (Inr (), w1')"
    and w2: "rows w2 = rows (fold write_row P w1')" "next_id w2 = next_id w1' + int (length P)"
    using c r2 by (cases "storage_op w1") (auto simp: commit_pending_def split: sum.splits)
  have w1': "rows w1' = rows w"
    using storage_opD [OF so] w1 by simp
  show "length tasks = length numbers"
    using len T by simp
  show "tasks ! k = \<lparr>task_id = next_id w + int k, task_number = numbers ! k,
                      task_message = message\<rparr>" if k: "k < length numbers"
    using nth [OF k] T by simp
  show "rows (snd (enqueue_calls numbers message w)) (next_id w + int k) =
           Some (queued_entry (next_id w + int k) (numbers ! k) message (clock w))"
    if k: "k < length numbers"
  proof -
    have "P ! k \<in> set P" using k len by simp
    from commit_rows_new [OF dist this, of w1']
    show ?thesis using nth [OF k] res w2 by (simp add: queued_entry_def)
  qed
  show "rows (snd (enqueue_calls numbers message w)) i = rows w i" if "i < next_id w"
  proof -
    have "log_id ` set P = set (map (\<lambda>k. next_id w + int k) [0..<length numbers])"
      using ids by (metis set_map)
    with that have "i \<notin> log_id ` set P"
      by auto
    from commit_rows_other [OF this, of w1'] show ?thesis
      using res w2 w1' by simp
  qed
qed

lemma enqueue_calls_Inl:
  assumes bad: "fst (enqueue_calls numbers message w) = Inl e"
  shows "rows (snd (enqueue_calls numbers message w)) = rows w"
proof -
  obtain r w1 where l: "enqueue_loop numbers message [] [] w = (r, w1)"
    by (cases "enqueue_loop numbers message [] [] w")
  show ?thesis
  proof (cases r)
    case (Inl e')
    with l enqueue_loop_Inl [of numbers message "[]" "[]" w e' w1] show ?thesis
      by (simp add: enqueue_calls_def)
  next
    case (Inr PT)
    obtain P T where PT: "PT = (P, T)" by (cases PT)
    obtain r2 w2 where c: "commit_pending P w1 = (r2, w2)"
      by (cases "commit_pending P w1")
    from bad l Inr PT c obtain e2 where r2: "r2 = Inl e2"
      by (cases r2) (auto simp: enqueue_calls_def)
    have "rows w2 = rows w1"
      using c r2 by (cases "storage_op w1")
        (auto simp: commit_pending_def split: sum.splits dest: storage_opD)
    moreover have "rows w1 = rows w"
      using enqueue_loop_Inr [of numbers message "[]" "[]" w P T w1] l Inr PT by auto
    ultimately show ?thesis
      using l Inr PT c r2 by (simp add: enqueue_calls_def)
  qed
qed

lemma enqueue_calls_no_faults:
  assumes nf: "faults w = []"
  shows "\<exists>tasks. enqueue_calls numbers message w = (Inr tasks, snd (enqueue_calls numbers message w))
     \<and> faults (snd (enqueue_calls numbers message w)) = []"
proof -
  from enqueue_loop_no_faults [OF nf, of numbers message "[]" "[]"]
  obtain P T w1 where l: "enqueue_loop numbers message [] [] w = (Inr (P, T), w1)"
    and f1: "faults w1 = []" by blast
  have "faults (fold write_row P v) = faults v" for v
    by (induction P arbitrary: v) (simp_all add: write_row_def log_event_def)
  then show ?thesis
    using l f1 by (simp add: enqueue_calls_def commit_pending_def storage_op_no_faults)
qed

text \<open>
  C4, as the code has it. When \<open>enqueue_calls\<close> returns, it returns one task per number,
  in the order of the numbers, and for each of them the queued record with the given
  message is in the table, committed before the tasks are returned; the records that
  were there before are untouched. When an operation of the session raises, the exception
  leaves \<open>enqueue_calls\<close>: no task is returned for any number and the table is as it was
  before the call. With no fault scheduled \<open>enqueue_calls\<close> returns.
\<close>

theorem enqueue_calls_all_or_nothing:
  "(\<forall>tasks. fst (enqueue_calls numbers message w) = Inr tasks \<longrightarrow>
      length tasks = length numbers \<and>
      (\<forall>k < length numbers.
         tasks ! k = \<lparr>task_id = next_id w + int k, task_number = numbers ! k,
                      task_message = message\<rparr> \<and>
         rows (snd (enqueue_calls numbers message w)) (next_id w + int k) =
           Some (queued_entry (next_id w + int k) (numbers ! k) message (clock w))) \<and>
      (\<forall>i. i < next_id w \<longrightarrow>
         rows (snd (enqueue_calls numbers message w)) i = rows w i)) \<and>
   (\<forall>e. fst (enqueue_calls numbers message w) = Inl e \<longrightarrow>
      rows (snd (enqueue_calls numbers message w)) = rows w) \<and>
   (faults w = [] \<longrightarrow> (\<exists>tasks. fst (enqueue_calls numbers message w) = Inr tasks))"
proof -
  have a: "faults w = [] \<longrightarrow> (\<exists>tasks. fst (enqueue_calls numbers message w) = Inr tasks)"
    using enqueue_calls_no_faults [of w numbers message] by (metis fst_conv)
  show ?thesis
    using enqueue_calls_Inr [of numbers message w] enqueue_calls_Inl [of numbers message w] a
    by blast
qed

theorem enqueue_calls_all_or_nothing_witness:
  "faults initial_world = [] \<and> (1::int) < next_id example_batch \<and>
   fst (enqueue_calls [''+15005550006'', ''+919876543210'', ''+15005550001''] ''Hello''
          initial_world) =
     Inr [\<lparr>task_id = 1, task_number = ''+15005550006'', task_message = ''Hello''\<rparr>,
          \<lparr>task_id = 2, task_number = ''+919876543210'', task_message = ''Hello''\<rparr>,
          \<lparr>task_id = 3, task_number = ''+15005550001'', task_message = ''Hello''\<rparr>] \<and>
   rows example_batch 2 = Some (queued_entry 2 ''+919876543210'' ''Hello'' 0) \<and>
   fst (enqueue_calls [''+15005550009''] ''Hello'' (example_batch\<lparr>faults := [True]\<rparr>)) =
     Inl StorageError \<and>
   rows (snd (enqueue_calls [''+15005550009''] ''Hello''
                (example_batch\<lparr>faults := [True]\<rparr>))) 1 =
     Some (queued_entry 1 ''+15005550006'' ''Hello'' 0)"
proof -
  let ?ns = "[''+15005550006'', ''+919876543210'', ''+15005550001'']"
  have a: "faults initial_world = []" by (simp add: initial_world_def)
  have b: "fst (enqueue_calls ?ns ''Hello'' initial_world) =
     Inr [\<lparr>task_id = 1, task_number = ''+15005550006'', task_message = ''Hello''\<rparr>,
          \<lparr>task_id = 2, task_number = ''+919876543210'', task_message = ''Hello''\<rparr>,
          \<lparr>task_id = 3, task_number = ''+15005550001'', task_message = ''Hello''\<rparr>]"
    by (simp add: enqueue_calls_def session_flush_def storage_op_def commit_pending_def
        initial_world_def)
  have c: "(1::nat) < length ?ns" by simp
  have d: "fst (enqueue_calls [''+15005550009''] ''Hello'' (example_batch\<lparr>faults := [True]\<rparr>)) =
     Inl StorageError"
    by (simp add: enqueue_calls_def session_flush_def storage_op_def)
  have e: "(1::int) < next_id example_batch" by (simp add: example_batch_unfold)
  have f: "rows (example_batch\<lparr>faults := [True]\<rparr>) = rows example_batch" by simp
  from enqueue_calls_all_or_nothing [of ?ns "''Hello''" initial_world] b c
  have "rows example_batch 2 = Some (queued_entry 2 ''+919876543210'' ''Hello'' 0)"
    unfolding example_batch_def
    by (auto simp: initial_world_def dest!: spec [of _ 1])
  moreover
  from enqueue_calls_all_or_nothing [of "[''+15005550009'']" "''Hello''"
      "example_batch\<lparr>faults := [True]\<rparr>"] d
  have "rows (snd (enqueue_calls [''+15005550009''] ''Hello''
                (example_batch\<lparr>faults := [True]\<rparr>))) 1 =
     Some (queued_entry 1 ''+15005550006'' ''Hello'' 0)"
    by (simp add: example_batch_unfold)
  ultimately show ?thesis using a b d e by simp
qed

text \<open>
  C4, as the claim states it, fails: when the insert of the second of three numbers
  raises, no tasks are returned, and the record of the first number is not in the table.
\<close>

theorem enqueue_calls_counterexample:
  "fst (enqueue_calls [''+15005550001'', ''+15005550002'', ''+15005550003''] ''Hello''
          (initial_world\<lparr>faults := [False, True]\<rparr>)) = Inl StorageError \<and>
   rows (snd (enqueue_calls [''+15005550001'', ''+15005550002'', ''+15005550003''] ''Hello''
          (initial_world\<lparr>faults := [False, True]\<rparr>))) 1 = None"
  by (simp add: enqueue_calls_def session_flush_def storage_op_def initial_world_def)

section \<open>The Call Sequencer, the whole run\<close>

lemma session_commit_cases:
  "session_commit e w = (r, w1) \<Longrightarrow>
   clock w1 = clock w \<and> requests w1 = requests w \<and> next_id w1 = next_id w \<and>
   (r = Inl StorageError \<and> rows w1 = rows w \<and> trace w1 = trace w \<or>
    r = Inr () \<and> rows w1 = (rows w)(log_id e \<mapsto> e) \<and>
      trace w1 = trace w @ [(clock w, Committed (log_id e) (status e))])"
  by (auto simp: session_commit_def storage_op_def write_row_def log_event_def
      split: list.splits if_splits)

lemma session_get_cases:
  "session_get i w = (r, w1) \<Longrightarrow>
   clock w1 = clock w \<and> requests w1 = requests w \<and> next_id w1 = next_id w \<and>
   rows w1 = rows w \<and> trace w1 = trace w \<and> (r = Inl StorageError \<or> r = Inr (rows w i))"
  by (auto simp: session_get_def storage_op_def split: list.splits if_splits)

lemma get_commit_cases:
  assumes "(case session_get i w of
              (Inl e, w1) \<Rightarrow> (Inl e, w1)
            | (Inr None, w1) \<Rightarrow> (Inr (), w1)
            | (Inr (Some entry), w1) \<Rightarrow> session_commit (f (clock w1) entry) w1) = (r, w')"
  shows "clock w' = clock w \<and> requests w' = requests w \<and> next_id w' = next_id w \<and>
    (rows w' = rows w \<and> trace w' = trace w \<and>
       (r = Inl StorageError \<or> r = Inr () \<and> rows w i = None) \<or>
     (\<exists>e. rows w i = Some e \<and> r = Inr () \<and>
        rows w' = (rows w)(log_id (f (clock w) e) \<mapsto> f (clock w) e) \<and>
        trace w' = trace w @
          [(clock w, Committed (log_id (f (clock w) e)) (status (f (clock w) e)))]))"
proof -
  obtain g w1 where g: "session_get i w = (g, w1)" by (cases "session_get i w")
  note g1 = session_get_cases [OF g]
  show ?thesis
  proof (cases g)
    case (Inl x)
    with assms g g1 show ?thesis by auto
  next
    case (Inr o1)
    show ?thesis
    proof (cases o1)
      case None
      with assms g g1 Inr show ?thesis by auto
    next
      case (Some e)
      with assms g Inr have c: "session_commit (f (clock w1) e) w1 = (r, w')" by simp
      have e: "rows w i = Some e" and cl: "clock w1 = clock w" and rw: "rows w1 = rows w"
        and tr: "trace w1 = trace w"
        using g1 Inr Some by auto
      from session_commit_cases [OF c] g1
      have base: "clock w' = clock w \<and> requests w' = requests w \<and> next_id w' = next_id w"
        by simp
      from session_commit_cases [OF c]
      consider "r = Inl StorageError" "rows w' = rows w1" "trace w' = trace w1"
        | "r = Inr ()" "rows w' = (rows w1)(log_id (f (clock w1) e) \<mapsto> f (clock w1) e)"
          "trace w' = trace w1 @
             [(clock w1, Committed (log_id (f (clock w1) e)) (status (f (clock w1) e)))]"
        by blast
      then show ?thesis
      proof cases
        case 1
        with base rw tr show ?thesis by simp
      next
        case 2
        with base rw tr cl e show ?thesis by simp
      qed
    qed
  qed
qed

lemma update_status_cases:
  assumes "update_status i st err w = (r, w')"
  shows "clock w' = clock w \<and> requests w' = requests w \<and> next_id w' = next_id w \<and>
    (rows w' = rows w \<and> trace w' = trace w \<and>
       (r = Inl StorageError \<or> r = Inr () \<and> rows w i = None) \<or>
     (\<exists>e. rows w i = Some e \<and> r = Inr () \<and>
        rows w' = (rows w)(log_id e \<mapsto> mark st None err None (clock w) e) \<and>
        trace w' = trace w @ [(clock w, Committed (log_id e) st)]))"
  using get_commit_cases [where i = i and w = w and r = r and w' = w'
      and f = "\<lambda>now. mark st None err None now"] assms
  by (simp add: update_status_def mark_def)

lemma finalise_cases:
  assumes "finalise i res w = (r, w')"
  shows "clock w' = clock w \<and> requests w' = requests w \<and> next_id w' = next_id w \<and>
    (rows w' = rows w \<and> trace w' = trace w \<and>
       (r = Inl StorageError \<or> r = Inr () \<and> rows w i = None) \<or>
     (\<exists>e. rows w i = Some e \<and> r = Inr () \<and>
        rows w' = (rows w)(log_id e \<mapsto>
           mark (if success res then SUCCESS else FAILED) (result_duration res)
             (result_error res) (sid res) (clock w) e) \<and>
        trace w' = trace w @
          [(clock w, Committed (log_id e) (if success res then SUCCESS else FAILED))]))"
  using get_commit_cases [where i = i and w = w and r = r and w' = w'
      and f = "\<lambda>now. mark (if success res then SUCCESS else FAILED)
      (result_duration res) (result_error res) (sid res) now"] assms
  by (simp add: finalise_def mark_def Let_def)

lemma process_task_stages:
  assumes "process_task svc t w = (r, w')"
  shows "update_status (task_id t) IN_PROGRESS None w = (r, w') \<and> r = Inl StorageError \<or>
    (\<exists>w1 out w2.
       update_status (task_id t) IN_PROGRESS None w = (Inr (), w1) \<and>
       place_call svc (task_number t) (task_message t) (asyncio_sleep RATE_LIMIT_SECONDS w1) =
         (out, w2) \<and>
       ((\<exists>msg. out = Inl (ValueError msg) \<and>
           update_status (task_id t) SKIPPED (Some msg) w2 = (r, w')) \<or>
        (\<exists>res. out = Inr res \<and> (success res \<longrightarrow> result_error res = None) \<and>
           (\<not> success res \<longrightarrow> result_duration res = None \<and> sid res = None) \<and>
           finalise (task_id t) res w2 = (r, w'))))"
proof -
  obtain u w1 where u: "update_status (task_id t) IN_PROGRESS None w = (u, w1)"
    by (cases "update_status (task_id t) IN_PROGRESS None w")
  from update_status_cases [OF u] have ur: "u = Inl StorageError \<or> u = Inr ()" by auto
  show ?thesis
  proof (cases u)
    case (Inl x)
    with u ur assms show ?thesis by (auto simp: process_task_def)
  next
    case (Inr y)
    obtain out w2 where pc:
      "place_call svc (task_number t) (task_message t) (asyncio_sleep RATE_LIMIT_SECONDS w1) =
         (out, w2)"
      by (cases "place_call svc (task_number t) (task_message t)
                   (asyncio_sleep RATE_LIMIT_SECONDS w1)")
    from place_call_cases [OF pc] have shape:
      "(\<exists>msg. out = Inl (ValueError msg)) \<or>
       (\<exists>r. out = Inr r \<and> (success r \<longrightarrow> result_error r = None) \<and>
          (\<not> success r \<longrightarrow> result_duration r = None \<and> sid r = None))" by simp
    from shape u Inr pc assms show ?thesis
      by (auto simp: process_task_def)
  qed
qed

lemma mark_log_id [simp]: "log_id (mark st d er cs now e) = log_id e"
  by (simp add: mark_def)

lemma update_status_keyed:
  assumes u: "update_status i st err w = (r, w')" and k: "keyed w"
  shows "keyed w' \<and> next_id w' = next_id w \<and> clock w' = clock w \<and>
    (r = Inl StorageError \<or> r = Inr ()) \<and>
    (\<forall>j. j \<noteq> i \<longrightarrow> rows w' j = rows w j) \<and>
    (case rows w i of
       None \<Rightarrow> rows w' i = None
     | Some e \<Rightarrow>
         rows w' i = Some e \<and> r = Inl StorageError \<or>
         rows w' i = Some (mark st None err None (clock w) e) \<and> r = Inr ())"
  using update_status_cases [OF u] k
  by (auto simp: keyed_def split: option.splits if_splits)

lemma finalise_keyed:
  assumes u: "finalise i res w = (r, w')" and k: "keyed w"
  shows "keyed w' \<and> next_id w' = next_id w \<and> clock w' = clock w \<and>
    (r = Inl StorageError \<or> r = Inr ()) \<and>
    (\<forall>j. j \<noteq> i \<longrightarrow> rows w' j = rows w j) \<and>
    (case rows w i of
       None \<Rightarrow> rows w' i = None
     | Some e \<Rightarrow>
         rows w' i = Some e \<and> r = Inl StorageError \<or>
         rows w' i = Some (mark (if success res then SUCCESS else FAILED) (result_duration res)
                             (result_error res) (sid res) (clock w) e) \<and> r = Inr ())"
  using finalise_cases [OF u] k
  by (auto simp: keyed_def split: option.splits if_splits)

lemma place_call_keyed:
  "place_call svc n m w = (out, w') \<Longrightarrow> keyed w' = keyed w"
  by (drule place_call_cases) (simp add: keyed_def)

lemma asyncio_sleep_simps [simp]:
  "rows (asyncio_sleep d w) = rows w" "next_id (asyncio_sleep d w) = next_id w"
  "clock (asyncio_sleep d w) = clock w + d" "faults (asyncio_sleep d w) = faults w"
  "requests (asyncio_sleep d w) = requests w"
  "trace (asyncio_sleep d w) = trace w @ [(clock w + d, Slept d)]"
  "keyed (asyncio_sleep d w) = keyed w"
  by (simp_all add: asyncio_sleep_def log_event_def keyed_def)

lemma process_task_rows:
  assumes pt: "process_task svc t w = (r, w')" and k: "keyed w"
  shows "keyed w' \<and> next_id w' = next_id w \<and> (r = Inl StorageError \<or> r = Inr ()) \<and>
     (\<forall>i. i \<noteq> task_id t \<longrightarrow> rows w' i = rows w i) \<and>
     (case rows w (task_id t) of
        None \<Rightarrow> rows w' (task_id t) = None
      | Some e \<Rightarrow>
          (\<exists>e'. rows w' (task_id t) = Some e' \<and> (r = Inr () \<longrightarrow> terminal (status e')) \<and>
             (pristine e \<longrightarrow> fields_ok e')))"
proof -
  from process_task_stages [OF pt]
  consider (abort) "update_status (task_id t) IN_PROGRESS None w = (r, w')" "r = Inl StorageError"
    | (skip) w1 out w2 msg where
        "update_status (task_id t) IN_PROGRESS None w = (Inr (), w1)"
        "place_call svc (task_number t) (task_message t) (asyncio_sleep RATE_LIMIT_SECONDS w1) =
           (out, w2)"
        "update_status (task_id t) SKIPPED (Some msg) w2 = (r, w')"
    | (fin) w1 out w2 res where
        "update_status (task_id t) IN_PROGRESS None w = (Inr (), w1)"
        "place_call svc (task_number t) (task_message t) (asyncio_sleep RATE_LIMIT_SECONDS w1) =
           (out, w2)"
        "success res \<longrightarrow> result_error res = None"
        "\<not> success res \<longrightarrow> result_duration res = None \<and> sid res = None"
        "finalise (task_id t) res w2 = (r, w')"
    by blast
  then show ?thesis
  proof cases
    case abort
    from update_status_keyed [OF abort(1) k] abort(2) show ?thesis
      by (auto simp: pristine_def fields_ok_def split: option.splits)
  next
    case skip
    note a = update_status_keyed [OF skip(1) k]
    note b = place_call_cases [OF skip(2)]
    have k2: "keyed w2" using a place_call_keyed [OF skip(2)] by simp
    note c = update_status_keyed [OF skip(3) k2]
    show ?thesis
    proof (cases "rows w (task_id t)")
      case None
      with a b c show ?thesis by auto
    next
      case (Some e)
      with a b c show ?thesis
        by (auto simp: pristine_def fields_ok_def terminal_def mark_def)
    qed
  next
    case fin
    note a = update_status_keyed [OF fin(1) k]
    note b = place_call_cases [OF fin(2)]
    have k2: "keyed w2" using a place_call_keyed [OF fin(2)] by simp
    note c = finalise_keyed [OF fin(5) k2]
    show ?thesis
    proof (cases "rows w (task_id t)")
      case None
      with a b c show ?thesis by auto
    next
      case (Some e)
      with a b c fin(3,4) show ?thesis
        by (cases "success res")
           (auto simp: pristine_def fields_ok_def terminal_def mark_def)
    qed
  qed
qed

lemma process_task_result:
  assumes pt: "process_task svc t w = (r, w')"
  shows "r = Inl StorageError \<or> r = Inr ()"
  using process_task_stages [OF pt]
  by (auto dest: update_status_cases finalise_cases)

lemma process_task_no_faults:
  assumes nf: "faults w = []"
  shows "\<exists>w'. process_task svc t w = (Inr (), w') \<and> faults w' = []"
proof -
  have "\<exists>w1. update_status (task_id t) IN_PROGRESS None w = (Inr (), w1) \<and> faults w1 = []"
    using nf by (cases "rows w (task_id t)") (simp_all add: update_status_no_faults log_event_def)
  then obtain w1 where u: "update_status (task_id t) IN_PROGRESS None w = (Inr (), w1)"
    and f1: "faults w1 = []" by blast
  obtain out w2 where pc:
    "place_call svc (task_number t) (task_message t) (asyncio_sleep RATE_LIMIT_SECONDS w1) =
       (out, w2)"
    by (cases "place_call svc (task_number t) (task_message t)
                 (asyncio_sleep RATE_LIMIT_SECONDS w1)")
  from place_call_cases [OF pc] f1 have f2: "faults w2 = []"
    and shape: "(\<exists>msg. out = Inl (ValueError msg)) \<or> (\<exists>res. out = Inr res)"
    by auto
  from shape show ?thesis
  proof (elim disjE exE)
    fix msg assume "out = Inl (ValueError msg)"
    with u pc f2 show ?thesis
      by (cases "rows w2 (task_id t)")
         (simp_all add: process_task_def update_status_no_faults log_event_def)
  next
    fix res assume "out = Inr res"
    with u pc f2 show ?thesis
      by (cases "rows w2 (task_id t)")
         (simp_all add: process_task_def finalise_no_faults log_event_def)
  qed
qed

lemma execute_result:
  "fst (execute_call_sequence svc ts w) = Inl StorageError \<or>
   fst (execute_call_sequence svc ts w) = Inr ()"
proof (induction ts arbitrary: w)
  case Nil
  then show ?case by simp
next
  case (Cons t ts)
  obtain r w1 where pt: "process_task svc t w = (r, w1)"
    by (cases "process_task svc t w")
  from process_task_result [OF pt] Cons.IH [of w1] pt show ?case
    by auto
qed

lemma execute_no_faults:
  "faults w = [] \<Longrightarrow> fst (execute_call_sequence svc ts w) = Inr ()"
proof (induction ts arbitrary: w)
  case Nil
  then show ?case by simp
next
  case (Cons t ts)
  from process_task_no_faults [OF Cons.prems, of svc t]
  obtain w1 where "process_task svc t w = (Inr (), w1)" "faults w1 = []" by blast
  with Cons.IH [of w1] show ?case by simp
qed

lemma execute_terminal:
  "keyed w \<Longrightarrow> execute_call_sequence svc ts w = (Inr (), w') \<Longrightarrow>
   keyed w' \<and>
   (\<forall>i. i \<in> task_id ` set ts \<and> rows w i \<noteq> None \<or>
        (\<exists>e. rows w i = Some e \<and> terminal (status e)) \<longrightarrow>
        (\<exists>e. rows w' i = Some e \<and> terminal (status e)))"
proof (induction ts arbitrary: w)
  case Nil
  then show ?case by auto
next
  case (Cons t ts)
  obtain r w1 where pt: "process_task svc t w = (r, w1)"
    by (cases "process_task svc t w")
  with Cons.prems(2) have r: "r = Inr ()" and ex: "execute_call_sequence svc ts w1 = (Inr (), w')"
    by (auto split: sum.splits)
  note step = process_task_rows [OF pt Cons.prems(1)]
  from step have k1: "keyed w1" by simp
  note ih = Cons.IH [OF k1 ex]
  show ?case
  proof (intro conjI allI impI)
    show "keyed w'" using ih by simp
  next
    fix i
    assume a: "i \<in> task_id ` set (t # ts) \<and> rows w i \<noteq> None \<or>
        (\<exists>e. rows w i = Some e \<and> terminal (status e))"
    have "i \<in> task_id ` set ts \<and> rows w1 i \<noteq> None \<or>
        (\<exists>e. rows w1 i = Some e \<and> terminal (status e))"
    proof (cases "i = task_id t")
      case True
      from a have "rows w i \<noteq> None" by auto
      then obtain e where "rows w (task_id t) = Some e" using True by auto
      with step r True show ?thesis by auto
    next
      case False
      with step have "rows w1 i = rows w i" by simp
      with a False show ?thesis by auto
    qed
    with ih show "\<exists>e. rows w' i = Some e \<and> terminal (status e)" by blast
  qed
qed

lemma well_sequenced_append:
  "well_sequenced a \<Longrightarrow> well_sequenced b \<Longrightarrow> well_sequenced (a @ b)"
  by (induction a rule: well_sequenced.induct) auto

lemma dispatch_times_append [simp]:
  "dispatch_times (a @ b) = dispatch_times a @ dispatch_times b"
  by (simp add: dispatch_times_def)

lemma dispatch_times_Nil [simp]: "dispatch_times [] = []"
  by (simp add: dispatch_times_def)

lemma process_task_trace:
  assumes pt: "process_task svc t w = (r, w')"
  shows "\<exists>frag. trace w' = trace w @ frag \<and> well_sequenced (map snd frag) \<and>
     (r = Inl StorageError \<and> frag = [] \<and> clock w' = clock w \<or>
      dispatch_times frag = [clock w + RATE_LIMIT_SECONDS] \<and>
      clock w' = clock w + RATE_LIMIT_SECONDS)"
proof -
  let ?R = RATE_LIMIT_SECONDS
  from process_task_stages [OF pt]
  consider (abort) "update_status (task_id t) IN_PROGRESS None w = (r, w')" "r = Inl StorageError"
    | (skip) w1 out w2 msg where
        "update_status (task_id t) IN_PROGRESS None w = (Inr (), w1)"
        "place_call svc (task_number t) (task_message t) (asyncio_sleep ?R w1) = (out, w2)"
        "update_status (task_id t) SKIPPED (Some msg) w2 = (r, w')"
    | (fin) w1 out w2 res where
        "update_status (task_id t) IN_PROGRESS None w = (Inr (), w1)"
        "place_call svc (task_number t) (task_message t) (asyncio_sleep ?R w1) = (out, w2)"
        "finalise (task_id t) res w2 = (r, w')"
    by blast
  then show ?thesis
  proof cases
    case abort
    from update_status_cases [OF abort(1)] abort(2) show ?thesis by auto
  next
    case skip
    from update_status_cases [OF skip(1)]
    have c1: "clock w1 = clock w"
      and t1: "trace w1 = trace w \<or>
         (\<exists>j. trace w1 = trace w @ [(clock w, Committed j IN_PROGRESS)])"
      by auto
    from place_call_cases [OF skip(2)]
    have c2: "clock w2 = clock w + ?R"
      and t2: "trace w2 = trace w1 @ [(clock w + ?R, Slept ?R),
          (clock w + ?R, PlaceCall (task_number t) (task_message t))]"
      using c1 by simp_all
    from update_status_cases [OF skip(3)]
    have c3: "clock w' = clock w2"
      and t3: "trace w' = trace w2 \<or>
         (\<exists>j. trace w' = trace w2 @ [(clock w2, Committed j SKIPPED)])"
      by auto
    from t1 t2 t3 c2 c3 show ?thesis
      by (auto simp: dispatch_times_def)
  next
    case fin
    from update_status_cases [OF fin(1)]
    have c1: "clock w1 = clock w"
      and t1: "trace w1 = trace w \<or>
         (\<exists>j. trace w1 = trace w @ [(clock w, Committed j IN_PROGRESS)])"
      by auto
    from place_call_cases [OF fin(2)]
    have c2: "clock w2 = clock w + ?R"
      and t2: "trace w2 = trace w1 @ [(clock w + ?R, Slept ?R),
          (clock w + ?R, PlaceCall (task_number t) (task_message t))]"
      using c1 by simp_all
    from finalise_cases [OF fin(3)]
    have c3: "clock w' = clock w2"
      and t3: "trace w' = trace w2 \<or>
         (\<exists>j. trace w' = trace w2 @
            [(clock w2, Committed j (if success res then SUCCESS else FAILED))])"
      by auto
    from t1 t2 t3 c2 c3 show ?thesis
      by (cases "success res") (auto simp: dispatch_times_def)
  qed
qed

lemma execute_trace:
  "execute_call_sequence svc ts w = (r, w') \<Longrightarrow>
   \<exists>new. trace w' = trace w @ new \<and> well_sequenced (map snd new) \<and>
     sorted_wrt (\<lambda>a b. a + RATE_LIMIT_SECONDS \<le> b) (dispatch_times new) \<and>
     (\<forall>x \<in> set (dispatch_times new). clock w + RATE_LIMIT_SECONDS \<le> x) \<and>
     (r = Inr () \<longrightarrow> length (dispatch_times new) = length ts)"
proof (induction ts arbitrary: w)
  case Nil
  then show ?case by (simp add: dispatch_times_def)
next
  case (Cons t ts)
  let ?R = RATE_LIMIT_SECONDS
  have R: "0 \<le> ?R" by (simp add: RATE_LIMIT_SECONDS_def)
  obtain r1 w1 where pt: "process_task svc t w = (r1, w1)"
    by (cases "process_task svc t w")
  from process_task_trace [OF pt] obtain frag where
    f: "trace w1 = trace w @ frag" "well_sequenced (map snd frag)"
    and alt: "r1 = Inl StorageError \<and> frag = [] \<and> clock w1 = clock w \<or>
      dispatch_times frag = [clock w + ?R] \<and> clock w1 = clock w + ?R"
    by blast
  show ?case
  proof (cases r1)
    case (Inl e)
    with Cons.prems pt have "w' = w1" "r = Inl e" by simp_all
    moreover from alt
    have "sorted_wrt (\<lambda>a b. a + ?R \<le> b) (dispatch_times frag) \<and>
      (\<forall>x \<in> set (dispatch_times frag). clock w + ?R \<le> x)"
      by auto
    ultimately show ?thesis using f by auto
  next
    case (Inr u)
    with Cons.prems pt have ex: "execute_call_sequence svc ts w1 = (r, w')" by simp
    from alt Inr have d: "dispatch_times frag = [clock w + ?R]" and c: "clock w1 = clock w + ?R"
      by auto
    from Cons.IH [OF ex] obtain new where n:
      "trace w' = trace w1 @ new" "well_sequenced (map snd new)"
      "sorted_wrt (\<lambda>a b. a + ?R \<le> b) (dispatch_times new)"
      "\<forall>x \<in> set (dispatch_times new). clock w1 + ?R \<le> x"
      "r = Inr () \<longrightarrow> length (dispatch_times new) = length ts"
      by blast
    have "trace w' = trace w @ (frag @ new)" using f n by simp
    moreover have "well_sequenced (map snd (frag @ new))"
      using f n by (simp add: well_sequenced_append)
    moreover have "sorted_wrt (\<lambda>a b. a + ?R \<le> b) (dispatch_times (frag @ new))"
      using d n c by simp
    moreover have "\<forall>x \<in> set (dispatch_times (frag @ new)). clock w + ?R \<le> x"
      using d n c R by auto
    moreover have "r = Inr () \<longrightarrow> length (dispatch_times (frag @ new)) = length (t # ts)"
      using d n by simp
    ultimately show ?thesis by blast
  qed
qed

lemma example_run_rows:
  "fst (execute_call_sequence example_service example_tasks example_batch) = Inr ()"
  "map_option status
     (rows (snd (execute_call_sequence example_service example_tasks example_batch)) 1) =
     Some SUCCESS"
  "map_option status
     (rows (snd (execute_call_sequence example_service example_tasks example_batch)) 2) =
     Some SKIPPED"
  "map_option status
     (rows (snd (execute_call_sequence example_service example_tasks example_batch)) 3) =
     Some FAILED"
  by (simp_all add: example_tasks_def example_service_def example_batch_unfold run_defs
      queued_entry_def strip_ansi_def match_csi_def ESC_def)

lemma example_run_times:
  "dispatch_times (drop (length (trace example_batch))
     (trace (snd (execute_call_sequence example_service example_tasks example_batch)))) =
   [2.5, 5, 7.5]"
  by (simp add: example_tasks_def example_service_def example_batch_unfold run_defs
      queued_entry_def strip_ansi_def match_csi_def ESC_def dispatch_times_def
      RATE_LIMIT_SECONDS_def)

lemma keyed_example_batch: "keyed example_batch"
  by (auto simp: keyed_def example_batch_unfold queued_entry_def split: if_splits)

text \<open>
  C6. In every run of \<open>execute_call_sequence\<close>, whatever the service, the tasks and the
  faults of the storage: each call of \<open>place_call\<close> comes at least \<open>RATE_LIMIT_SECONDS\<close>
  after the one before it, and the first one at least that long after the start of the
  run; and the events of the run are well sequenced, that is, a commit of \<open>in_progress\<close>
  is directly followed by the sleep of \<open>RATE_LIMIT_SECONDS\<close> and the sleep by the call of
  \<open>place_call\<close>, which occurs nowhere else.
\<close>

theorem dispatches_paced:
  "sorted_wrt (\<lambda>a b. a + RATE_LIMIT_SECONDS \<le> b)
     (dispatch_times (drop (length (trace w))
        (trace (snd (execute_call_sequence svc tasks w))))) \<and>
   (\<forall>x \<in> set (dispatch_times (drop (length (trace w))
        (trace (snd (execute_call_sequence svc tasks w))))).
      clock w + RATE_LIMIT_SECONDS \<le> x) \<and>
   well_sequenced (map snd (drop (length (trace w))
        (trace (snd (execute_call_sequence svc tasks w)))))"
proof -
  obtain r w' where ex: "execute_call_sequence svc tasks w = (r, w')"
    by (cases "execute_call_sequence svc tasks w")
  from execute_trace [OF ex] obtain new where
    "trace w' = trace w @ new" "well_sequenced (map snd new)"
    "sorted_wrt (\<lambda>a b. a + RATE_LIMIT_SECONDS \<le> b) (dispatch_times new)"
    "\<forall>x \<in> set (dispatch_times new). clock w + RATE_LIMIT_SECONDS \<le> x"
    by blast
  then show ?thesis using ex by simp
qed

theorem dispatches_paced_witness:
  "dispatch_times (drop (length (trace example_batch))
     (trace (snd (execute_call_sequence example_service example_tasks example_batch)))) =
     [2.5, 5, 7.5] \<and>
   sorted_wrt (\<lambda>a b. a + RATE_LIMIT_SECONDS \<le> b) [2.5, 5, 7.5] \<and>
   list_all (\<lambda>x. clock example_batch + RATE_LIMIT_SECONDS \<le> x) [2.5, 5, 7.5]"
  using dispatches_paced [of example_batch example_service example_tasks]
  by (simp only: example_run_times list_all_iff) simp

lemma get_commit_faults:
  assumes "(case session_get i w of
              (Inl e, w1) \<Rightarrow> (Inl e, w1)
            | (Inr None, w1) \<Rightarrow> (Inr (), w1)
            | (Inr (Some entry), w1) \<Rightarrow> session_commit (f (clock w1) entry) w1) = (r, w')"
  shows "r = (if True \<in> set (take (if rows w i = None then 1 else 2) (faults w))
              then Inl StorageError else Inr ()) \<and>
    (r = Inr () \<longrightarrow> faults w' = drop (if rows w i = None then 1 else 2) (faults w))"
  using assms
  by (auto simp: session_get_def session_commit_def storage_op_def write_row_def log_event_def
      split: list.splits if_splits option.splits)

lemma update_status_faults:
  assumes "update_status i st err w = (r, w')"
  shows "r = (if True \<in> set (take (if rows w i = None then 1 else 2) (faults w))
              then Inl StorageError else Inr ()) \<and>
    (r = Inr () \<longrightarrow> faults w' = drop (if rows w i = None then 1 else 2) (faults w))"
  using get_commit_faults [where i = i and w = w and r = r and w' = w'
      and f = "\<lambda>now. mark st None err None now"] assms
  by (simp add: update_status_def)

lemma finalise_faults:
  assumes "finalise i res w = (r, w')"
  shows "r = (if True \<in> set (take (if rows w i = None then 1 else 2) (faults w))
              then Inl StorageError else Inr ()) \<and>
    (r = Inr () \<longrightarrow> faults w' = drop (if rows w i = None then 1 else 2) (faults w))"
  using get_commit_faults [where i = i and w = w and r = r and w' = w'
      and f = "\<lambda>now. mark (if success res then SUCCESS else FAILED)
      (result_duration res) (result_error res) (sid res) now"] assms
  by (simp add: finalise_def Let_def)

lemma execute_append:
  "execute_call_sequence svc (pre @ post) w =
     (case execute_call_sequence svc pre w of
        (Inl e, w1) \<Rightarrow> (Inl e, w1)
      | (Inr u, w1) \<Rightarrow> execute_call_sequence svc post w1)"
  by (induction pre arbitrary: w) (simp_all split: prod.splits sum.splits)

lemma place_call_out:
  "fst (place_call svc n m w) =
     (if \<not> startswith n TWILIO_TEST_PREFIX then Inl (ValueError test_mode_reason)
      else Inr (case calls_create svc (requests w) (twiml_of m) n (from_number svc) of
          Created s d \<Rightarrow>
            \<lparr>success = True, sid = s, result_duration = d, result_error = None\<rparr>
        | TwilioRestException detail \<Rightarrow>
            \<lparr>success = False, sid = None, result_duration = None,
             result_error = strip_ansi (Some detail)\<rparr>
        | OtherException detail \<Rightarrow>
            \<lparr>success = False, sid = None, result_duration = None,
             result_error = strip_ansi (Some (''Unexpected error: '' @ detail))\<rparr>))"
  by (simp add: place_call_def Let_def ensure_test_mode_def log_event_def
      split: client_outcome.splits)


lemma process_task_faults:
  "fst (process_task svc t w) =
     (if True \<in> set (take (storage_ops t w) (faults w)) then Inl StorageError else Inr ())"
proof -
  define n where "n = (if rows w (task_id t) = None then 1 else 2 :: nat)"
  have ops: "storage_ops t w = n + n"
    by (simp add: storage_ops_def n_def)
  have split_take: "set (take (n + n) (faults w)) =
      set (take n (faults w)) \<union> set (take n (drop n (faults w)))"
    by (simp add: take_add)
  obtain r w' where pt: "process_task svc t w = (r, w')"
    by (cases "process_task svc t w")
  from process_task_stages [OF pt]
  consider (abort) "update_status (task_id t) IN_PROGRESS None w = (r, w')" "r = Inl StorageError"
    | (skip) w1 out w2 msg where
        "update_status (task_id t) IN_PROGRESS None w = (Inr (), w1)"
        "place_call svc (task_number t) (task_message t) (asyncio_sleep RATE_LIMIT_SECONDS w1) =
           (out, w2)"
        "update_status (task_id t) SKIPPED (Some msg) w2 = (r, w')"
    | (final) w1 out w2 res where
        "update_status (task_id t) IN_PROGRESS None w = (Inr (), w1)"
        "place_call svc (task_number t) (task_message t) (asyncio_sleep RATE_LIMIT_SECONDS w1) =
           (out, w2)"
        "finalise (task_id t) res w2 = (r, w')"
    by blast
  then have "r = (if True \<in> set (take (n + n) (faults w)) then Inl StorageError else Inr ())"
  proof cases
    case abort
    from update_status_faults [OF abort(1)] abort(2)
    have "True \<in> set (take n (faults w))"
      by (auto simp: n_def split: if_splits)
    with abort(2) split_take show ?thesis by simp
  next
    case skip
    from update_status_faults [OF skip(1)]
    have a: "True \<notin> set (take n (faults w))" and f1: "faults w1 = drop n (faults w)"
      by (auto simp: n_def split: if_splits)
    from update_status_cases [OF skip(1)]
    have p1: "rows w1 (task_id t) = None \<longleftrightarrow> rows w (task_id t) = None"
      by (auto split: if_splits)
    from place_call_cases [OF skip(2)] f1 p1
    have f2: "faults w2 = drop n (faults w)"
      and p2: "rows w2 (task_id t) = None \<longleftrightarrow> rows w (task_id t) = None"
      by simp_all
    from update_status_faults [OF skip(3)] f2 p2
    have "r = (if True \<in> set (take n (drop n (faults w))) then Inl StorageError else Inr ())"
      by (simp add: n_def)
    with a split_take show ?thesis by simp
  next
    case final
    from update_status_faults [OF final(1)]
    have a: "True \<notin> set (take n (faults w))" and f1: "faults w1 = drop n (faults w)"
      by (auto simp: n_def split: if_splits)
    from update_status_cases [OF final(1)]
    have p1: "rows w1 (task_id t) = None \<longleftrightarrow> rows w (task_id t) = None"
      by (auto split: if_splits)
    from place_call_cases [OF final(2)] f1 p1
    have f2: "faults w2 = drop n (faults w)"
      and p2: "rows w2 (task_id t) = None \<longleftrightarrow> rows w (task_id t) = None"
      by simp_all
    from finalise_faults [OF final(3)] f2 p2
    have "r = (if True \<in> set (take n (drop n (faults w))) then Inl StorageError else Inr ())"
      by (simp add: n_def)
    with a split_take show ?thesis by simp
  qed
  with pt ops show ?thesis by simp
qed

lemma process_task_status:
  assumes pt: "process_task svc t w = (Inr (), w')"
    and k: "keyed w" and present: "rows w (task_id t) \<noteq> None"
  shows "\<exists>e. rows w' (task_id t) = Some e \<and>
     (case fst (place_call svc (task_number t) (task_message t) w) of
        Inl (ValueError msg) \<Rightarrow> status e = SKIPPED \<and> error e = Some msg
      | Inl StorageError \<Rightarrow> False
      | Inr res \<Rightarrow>
          (case calls_create svc (requests w) (twiml_of (task_message t)) (task_number t)
                  (from_number svc) of
             Created s d \<Rightarrow> status e = SUCCESS
           | TwilioRestException detail \<Rightarrow>
               status e = FAILED \<and> error e = strip_ansi (Some detail)
           | OtherException detail \<Rightarrow>
               status e = FAILED \<and>
               error e = strip_ansi (Some (''Unexpected error: '' @ detail))))"
proof -
  from present obtain e0 where e0: "rows w (task_id t) = Some e0" by auto
  with k have id0: "log_id e0 = task_id t" by (simp add: keyed_def)
  from process_task_stages [OF pt]
  consider (skip) w1 w2 msg where
        "update_status (task_id t) IN_PROGRESS None w = (Inr (), w1)"
        "place_call svc (task_number t) (task_message t) (asyncio_sleep RATE_LIMIT_SECONDS w1) =
           (Inl (ValueError msg), w2)"
        "update_status (task_id t) SKIPPED (Some msg) w2 = (Inr (), w')"
    | (final) w1 w2 res where
        "update_status (task_id t) IN_PROGRESS None w = (Inr (), w1)"
        "place_call svc (task_number t) (task_message t) (asyncio_sleep RATE_LIMIT_SECONDS w1) =
           (Inr res, w2)"
        "finalise (task_id t) res w2 = (Inr (), w')"
    by blast
  then show ?thesis
  proof cases
    case skip
    from update_status_cases [OF skip(1)] e0 id0
    obtain e1 where r1: "rows w1 (task_id t) = Some e1" and id1: "log_id e1 = task_id t"
      and q1: "requests w1 = requests w"
      by auto
    from place_call_cases [OF skip(2)] r1
    have r2: "rows w2 (task_id t) = Some e1" by simp
    have "fst (place_call svc (task_number t) (task_message t)
                 (asyncio_sleep RATE_LIMIT_SECONDS w1)) =
          fst (place_call svc (task_number t) (task_message t) w)"
      by (rule place_call_fst) (simp add: q1)
    with skip(2)
    have out: "fst (place_call svc (task_number t) (task_message t) w) = Inl (ValueError msg)"
      by simp
    from update_status_cases [OF skip(3)] r2 id1
    have "rows w' (task_id t) = Some (mark SKIPPED None (Some msg) None (clock w2) e1)"
      by auto
    with out show ?thesis by (simp add: mark_def)
  next
    case final
    from update_status_cases [OF final(1)] e0 id0
    obtain e1 where r1: "rows w1 (task_id t) = Some e1" and id1: "log_id e1 = task_id t"
      and q1: "requests w1 = requests w"
      by auto
    from place_call_cases [OF final(2)] r1
    have r2: "rows w2 (task_id t) = Some e1" by simp
    have "fst (place_call svc (task_number t) (task_message t)
                 (asyncio_sleep RATE_LIMIT_SECONDS w1)) =
          fst (place_call svc (task_number t) (task_message t) w)"
      by (rule place_call_fst) (simp add: q1)
    with final(2)
    have out: "fst (place_call svc (task_number t) (task_message t) w) = Inr res"
      by simp
    from finalise_cases [OF final(3)] r2 id1
    have row: "rows w' (task_id t) =
        Some (mark (if success res then SUCCESS else FAILED) (result_duration res)
                (result_error res) (sid res) (clock w2) e1)"
      by auto
    from out have res: "res =
        (case calls_create svc (requests w) (twiml_of (task_message t)) (task_number t)
                (from_number svc) of
           Created s d \<Rightarrow>
             \<lparr>success = True, sid = s, result_duration = d, result_error = None\<rparr>
         | TwilioRestException detail \<Rightarrow>
             \<lparr>success = False, sid = None, result_duration = None,
              result_error = strip_ansi (Some detail)\<rparr>
         | OtherException detail \<Rightarrow>
             \<lparr>success = False, sid = None, result_duration = None,
              result_error = strip_ansi (Some (''Unexpected error: '' @ detail))\<rparr>)"
      by (simp add: place_call_out split: if_splits)
    show ?thesis
      unfolding out row
      by (cases "calls_create svc (requests w) (twiml_of (task_message t)) (task_number t)
                   (from_number svc)")
         (simp_all add: res mark_def strip_ansi_def)
  qed
qed


lemma execute_frame:
  "keyed w \<Longrightarrow> i \<notin> task_id ` set ts \<Longrightarrow>
   keyed (snd (execute_call_sequence svc ts w)) \<and>
   rows (snd (execute_call_sequence svc ts w)) i = rows w i"
proof (induction ts arbitrary: w)
  case Nil
  then show ?case by simp
next
  case (Cons t ts)
  obtain r w1 where pt: "process_task svc t w = (r, w1)"
    by (cases "process_task svc t w")
  note step = process_task_rows [OF pt Cons.prems(1)]
  from step Cons.prems(2) have k1: "keyed w1" and same: "rows w1 i = rows w i"
    by auto
  from Cons.prems(2) have "i \<notin> task_id ` set ts" by simp
  from Cons.IH [OF k1 this] same k1 pt show ?case
    by (cases r) simp_all
qed

lemma example_after_first_eval:
  "process_task example_service (hd example_tasks) example_batch = (Inr (), example_after_first)"
  "rows example_after_first 1 =
     Some ((queued_entry 1 ''+15005550006'' ''Hello'' 0)
             \<lparr>status := SUCCESS, duration := Some 3, call_sid := Some ''CA1'',
              updated_at := RATE_LIMIT_SECONDS\<rparr>)"
  "faults example_after_first = []"
  by (simp_all add: example_after_first_def example_tasks_def example_service_def
      example_batch_unfold run_defs queued_entry_def prod_eq_iff)

lemma example_after_first_more:
  "keyed example_after_first" "requests example_after_first = 1"
  "rows example_after_first 3 = Some (queued_entry 3 ''+15005550001'' ''Hello'' 0)"
proof -
  from process_task_rows [OF example_after_first_eval(1) keyed_example_batch]
  show "keyed example_after_first" by simp
  show "requests example_after_first = 1"
    by (simp add: example_after_first_def example_tasks_def example_service_def
        example_batch_unfold run_defs queued_entry_def)
  show "rows example_after_first 3 = Some (queued_entry 3 ''+15005550001'' ''Hello'' 0)"
    by (simp add: example_after_first_def example_tasks_def example_service_def
        example_batch_unfold run_defs queued_entry_def)
qed

text \<open>
  C7, as the code has it. No exception of the transport leaves the run: the run ends
  normally or with an exception of the storage, never with a \<open>ValueError\<close>. When no
  operation of the storage fails, the run ends normally; and when it ends normally,
  \<open>place_call\<close> was called once for each task and every task that had a record has a
  record in a terminal state.

  A run of a sequence is the run of a part of it followed, if that raised nothing, by
  the run of the rest. For a task \<open>t\<close> processed in any world \<open>w\<close>: the task ends with
  the exception of the storage exactly when one of its database operations fails, and
  normally otherwise. An exception of the storage is not caught: it ends the run in the
  world the task left, and the tasks after it are not processed. A task that ends
  normally is followed by the remaining tasks; if its record exists, the record is then
  \<open>skipped\<close> with the text of the exception when \<open>place_call\<close> raised the \<open>ValueError\<close>,
  \<open>failed\<close> with the stripped text of the exception when the Twilio client raised, and
  \<open>success\<close> when the client created the call. The record of a task that ended normally
  is still in a terminal state at the end of the run, also of a run that a later task
  ends with an exception, when no later task has the same id.
\<close>

theorem transport_errors_contained:
  "(\<forall>msg. fst (execute_call_sequence svc tasks w) \<noteq> Inl (ValueError msg)) \<and>
   (faults w = [] \<longrightarrow> fst (execute_call_sequence svc tasks w) = Inr ()) \<and>
   (keyed w \<and> fst (execute_call_sequence svc tasks w) = Inr () \<longrightarrow>
      length (dispatch_times (drop (length (trace w))
        (trace (snd (execute_call_sequence svc tasks w))))) = length tasks \<and>
      (\<forall>t \<in> set tasks. rows w (task_id t) \<noteq> None \<longrightarrow>
         (\<exists>e. rows (snd (execute_call_sequence svc tasks w)) (task_id t) = Some e \<and>
              terminal (status e)))) \<and>
   execute_call_sequence svc (pre @ post) w =
     (case execute_call_sequence svc pre w of
        (Inl e, w1) \<Rightarrow> (Inl e, w1)
      | (Inr u, w1) \<Rightarrow> execute_call_sequence svc post w1) \<and>
   fst (process_task svc t w) =
     (if True \<in> set (take (storage_ops t w) (faults w)) then Inl StorageError else Inr ()) \<and>
   (fst (process_task svc t w) = Inl StorageError \<longrightarrow>
      execute_call_sequence svc (t # ts) w = (Inl StorageError, snd (process_task svc t w))) \<and>
   (fst (process_task svc t w) = Inr () \<longrightarrow>
      execute_call_sequence svc (t # ts) w =
        execute_call_sequence svc ts (snd (process_task svc t w))) \<and>
   (keyed w \<and> rows w (task_id t) \<noteq> None \<and> fst (process_task svc t w) = Inr () \<longrightarrow>
      (\<exists>e. rows (snd (process_task svc t w)) (task_id t) = Some e \<and>
         (case fst (place_call svc (task_number t) (task_message t) w) of
            Inl (ValueError msg) \<Rightarrow> status e = SKIPPED \<and> error e = Some msg
          | Inl StorageError \<Rightarrow> False
          | Inr res \<Rightarrow>
              (case calls_create svc (requests w) (twiml_of (task_message t)) (task_number t)
                      (from_number svc) of
                 Created s d \<Rightarrow> status e = SUCCESS
               | TwilioRestException detail \<Rightarrow>
                   status e = FAILED \<and> error e = strip_ansi (Some detail)
               | OtherException detail \<Rightarrow>
                   status e = FAILED \<and>
                   error e = strip_ansi (Some (''Unexpected error: '' @ detail)))))) \<and>
   (keyed w \<and> rows w (task_id t) \<noteq> None \<and> task_id t \<notin> task_id ` set post \<and>
    fst (execute_call_sequence svc (pre @ [t]) w) = Inr () \<longrightarrow>
      (\<exists>e. rows (snd (execute_call_sequence svc (pre @ t # post) w)) (task_id t) = Some e \<and>
           terminal (status e)))"
proof -
  have a: "\<forall>msg. fst (execute_call_sequence svc tasks w) \<noteq> Inl (ValueError msg)"
    using execute_result [of svc tasks w] by auto
  have b: "faults w = [] \<longrightarrow> fst (execute_call_sequence svc tasks w) = Inr ()"
    by (simp add: execute_no_faults)
  have c: "length (dispatch_times (drop (length (trace w))
        (trace (snd (execute_call_sequence svc tasks w))))) = length tasks \<and>
      (\<forall>t \<in> set tasks. rows w (task_id t) \<noteq> None \<longrightarrow>
         (\<exists>e. rows (snd (execute_call_sequence svc tasks w)) (task_id t) = Some e \<and>
              terminal (status e)))"
    if k: "keyed w" and ok: "fst (execute_call_sequence svc tasks w) = Inr ()"
  proof -
    obtain w' where ex: "execute_call_sequence svc tasks w = (Inr (), w')"
      using ok by (cases "execute_call_sequence svc tasks w") simp
    from execute_trace [OF ex] obtain new where
      "trace w' = trace w @ new" "length (dispatch_times new) = length tasks"
      by blast
    then have "length (dispatch_times (drop (length (trace w))
        (trace (snd (execute_call_sequence svc tasks w))))) = length tasks"
      using ex by simp
    moreover from execute_terminal [OF k ex]
    have "\<forall>t \<in> set tasks. rows w (task_id t) \<noteq> None \<longrightarrow>
         (\<exists>e. rows (snd (execute_call_sequence svc tasks w)) (task_id t) = Some e \<and>
              terminal (status e))"
      using ex by auto
    ultimately show ?thesis by blast
  qed
  note d = execute_append [of svc pre post w]
  note e = process_task_faults [of svc t w]
  have f: "execute_call_sequence svc (t # ts) w = (Inl StorageError, snd (process_task svc t w))"
    if "fst (process_task svc t w) = Inl StorageError"
    using that by (cases "process_task svc t w") simp
  have g: "execute_call_sequence svc (t # ts) w =
        execute_call_sequence svc ts (snd (process_task svc t w))"
    if "fst (process_task svc t w) = Inr ()"
    using that by (cases "process_task svc t w") simp
  have h: "\<exists>e. rows (snd (process_task svc t w)) (task_id t) = Some e \<and>
         (case fst (place_call svc (task_number t) (task_message t) w) of
            Inl (ValueError msg) \<Rightarrow> status e = SKIPPED \<and> error e = Some msg
          | Inl StorageError \<Rightarrow> False
          | Inr res \<Rightarrow>
              (case calls_create svc (requests w) (twiml_of (task_message t)) (task_number t)
                      (from_number svc) of
                 Created s d \<Rightarrow> status e = SUCCESS
               | TwilioRestException detail \<Rightarrow>
                   status e = FAILED \<and> error e = strip_ansi (Some detail)
               | OtherException detail \<Rightarrow>
                   status e = FAILED \<and>
                   error e = strip_ansi (Some (''Unexpected error: '' @ detail))))"
    if "keyed w" "rows w (task_id t) \<noteq> None" "fst (process_task svc t w) = Inr ()"
  proof -
    from that(3) have "process_task svc t w = (Inr (), snd (process_task svc t w))"
      by (cases "process_task svc t w") simp
    from process_task_status [OF this that(1,2)] show ?thesis .
  qed
  have i: "\<exists>e. rows (snd (execute_call_sequence svc (pre @ t # post) w)) (task_id t) = Some e \<and>
           terminal (status e)"
    if k: "keyed w" and present: "rows w (task_id t) \<noteq> None"
      and other: "task_id t \<notin> task_id ` set post"
      and ok: "fst (execute_call_sequence svc (pre @ [t]) w) = Inr ()"
  proof -
    obtain w1 where ex: "execute_call_sequence svc (pre @ [t]) w = (Inr (), w1)"
      using ok by (cases "execute_call_sequence svc (pre @ [t]) w") simp
    from execute_terminal [OF k ex] present
    obtain e where k1: "keyed w1" and row: "rows w1 (task_id t) = Some e"
      and tm: "terminal (status e)"
      by auto
    have "execute_call_sequence svc ((pre @ [t]) @ post) w = execute_call_sequence svc post w1"
      unfolding execute_append [of svc "pre @ [t]" post w] ex by simp
    then have "execute_call_sequence svc (pre @ t # post) w = execute_call_sequence svc post w1"
      by simp
    with execute_frame [OF k1 other, of svc] row tm show ?thesis by simp
  qed
  from a b c d e f g h i show ?thesis by blast
qed

theorem transport_errors_contained_witness:
  "faults example_batch = [] \<and> keyed example_batch \<and>
   fst (execute_call_sequence example_service example_tasks example_batch) = Inr () \<and>
   list_all (\<lambda>t. rows example_batch (task_id t) \<noteq> None) example_tasks \<and>
   length (dispatch_times (drop (length (trace example_batch))
     (trace (snd (execute_call_sequence example_service example_tasks example_batch))))) =
     length example_tasks \<and>
   list_all (\<lambda>t.
      \<exists>e. rows (snd (execute_call_sequence example_service example_tasks example_batch))
             (task_id t) = Some e \<and> terminal (status e)) example_tasks \<and>
   fst (place_call example_service ''+919876543210'' ''Hello'' example_batch) =
     Inl (ValueError test_mode_reason) \<and>
   fst (process_task example_service (example_tasks ! 1) example_batch) = Inr () \<and>
   map_option status
     (rows (snd (process_task example_service (example_tasks ! 1) example_batch)) 2) =
     Some SKIPPED \<and>
   map_option error
     (rows (snd (process_task example_service (example_tasks ! 1) example_batch)) 2) =
     Some (Some test_mode_reason) \<and>
   calls_create example_service (requests example_after_first) (twiml_of ''Hello'')
     ''+15005550001'' (from_number example_service) = TwilioRestException ''HTTP 400'' \<and>
   fst (process_task example_service (example_tasks ! 2) example_after_first) = Inr () \<and>
   map_option status
     (rows (snd (process_task example_service (example_tasks ! 2) example_after_first)) 3) =
     Some FAILED \<and>
   map_option error
     (rows (snd (process_task example_service (example_tasks ! 2) example_after_first)) 3) =
     Some (Some ''HTTP 400'') \<and>
   True \<in> set (take (storage_ops (example_tasks ! 0)
                      (example_batch\<lparr>faults := [False, False, False, True]\<rparr>))
               (faults (example_batch\<lparr>faults := [False, False, False, True]\<rparr>))) \<and>
   execute_call_sequence example_service example_tasks
       (example_batch\<lparr>faults := [False, False, False, True]\<rparr>) =
     (Inl StorageError,
      snd (process_task example_service (example_tasks ! 0)
             (example_batch\<lparr>faults := [False, False, False, True]\<rparr>))) \<and>
   fst (execute_call_sequence example_service example_tasks
          (example_batch\<lparr>faults := [False, False, False, False, True]\<rparr>)) =
     Inl StorageError \<and>
   (\<exists>e. rows (snd (execute_call_sequence example_service example_tasks
                    (example_batch\<lparr>faults := [False, False, False, False, True]\<rparr>))) 1 =
          Some e \<and> terminal (status e))"
proof -
  let ?t1 = "example_tasks ! 0" and ?t2 = "example_tasks ! 1" and ?t3 = "example_tasks ! 2"
  let ?wS = "example_batch\<lparr>faults := [False, False, False, True]\<rparr>"
  let ?wL = "example_batch\<lparr>faults := [False, False, False, False, True]\<rparr>"
  have ts: "example_tasks = ?t1 # [?t2, ?t3]" "example_tasks = [] @ ?t1 # [?t2, ?t3]"
    by (simp_all add: example_tasks_def)
  have ids: "task_id ?t1 = 1" "task_id ?t2 = 2" "task_id ?t3 = 3"
    "task_number ?t2 = ''+919876543210''" "task_message ?t2 = ''Hello''"
    "task_number ?t3 = ''+15005550001''" "task_message ?t3 = ''Hello''"
    by (simp_all add: example_tasks_def)
  have a: "faults example_batch = []" by (simp add: example_batch_unfold)
  have b: "\<forall>t \<in> set example_tasks. rows example_batch (task_id t) \<noteq> None"
    by (simp add: example_tasks_def example_batch_unfold)
  note run = transport_errors_contained
    [of example_service example_tasks example_batch "[]" "[]" ?t2 "[]"]
  have old: "fst (execute_call_sequence example_service example_tasks example_batch) = Inr () \<and>
    length (dispatch_times (drop (length (trace example_batch))
     (trace (snd (execute_call_sequence example_service example_tasks example_batch))))) =
     length example_tasks \<and>
    (\<forall>t \<in> set example_tasks.
      \<exists>e. rows (snd (execute_call_sequence example_service example_tasks example_batch))
             (task_id t) = Some e \<and> terminal (status e))"
    using a b keyed_example_batch run by blast
  have gate: "fst (place_call example_service ''+919876543210'' ''Hello'' example_batch) =
     Inl (ValueError test_mode_reason)"
    by (simp add: place_call_out startswith_def TWILIO_TEST_PREFIX_def)
  have p2: "fst (process_task example_service ?t2 example_batch) = Inr ()"
    using run a by simp
  have r2: "rows example_batch (task_id ?t2) \<noteq> None"
    unfolding ids by (simp add: example_batch_unfold)
  from run keyed_example_batch r2 p2
  have "\<exists>e. rows (snd (process_task example_service ?t2 example_batch)) (task_id ?t2) = Some e \<and>
         (case fst (place_call example_service (task_number ?t2) (task_message ?t2)
                      example_batch) of
            Inl (ValueError msg) \<Rightarrow> status e = SKIPPED \<and> error e = Some msg
          | Inl StorageError \<Rightarrow> False
          | Inr res \<Rightarrow>
              (case calls_create example_service (requests example_batch)
                      (twiml_of (task_message ?t2)) (task_number ?t2)
                      (from_number example_service) of
                 Created s d \<Rightarrow> status e = SUCCESS
               | TwilioRestException detail \<Rightarrow>
                   status e = FAILED \<and> error e = strip_ansi (Some detail)
               | OtherException detail \<Rightarrow>
                   status e = FAILED \<and>
                   error e = strip_ansi (Some (''Unexpected error: '' @ detail))))"
    by blast
  then have skipped:
    "map_option status
       (rows (snd (process_task example_service ?t2 example_batch)) 2) = Some SKIPPED \<and>
     map_option error
       (rows (snd (process_task example_service ?t2 example_batch)) 2) =
       Some (Some test_mode_reason)"
    unfolding ids gate by auto
  note run3 = transport_errors_contained
    [of example_service "[]" example_after_first "[]" "[]" ?t3 "[]"]
  have client: "calls_create example_service (requests example_after_first) (twiml_of ''Hello'')
     ''+15005550001'' (from_number example_service) = TwilioRestException ''HTTP 400''"
    by (simp add: example_after_first_more(2) example_service_def scripted_service_def)
  have gate3: "fst (place_call example_service ''+15005550001'' ''Hello'' example_after_first) =
     Inr \<lparr>success = False, sid = None, result_duration = None,
          result_error = strip_ansi (Some ''HTTP 400'')\<rparr>"
    by (simp add: place_call_out client startswith_def TWILIO_TEST_PREFIX_def)
  have p3: "fst (process_task example_service ?t3 example_after_first) = Inr ()"
    using run3 example_after_first_eval(3) by simp
  have r3: "rows example_after_first (task_id ?t3) \<noteq> None"
    unfolding ids by (simp add: example_after_first_more(3))
  from run3 example_after_first_more(1) r3 p3
  have "\<exists>e. rows (snd (process_task example_service ?t3 example_after_first)) (task_id ?t3) =
           Some e \<and>
         (case fst (place_call example_service (task_number ?t3) (task_message ?t3)
                      example_after_first) of
            Inl (ValueError msg) \<Rightarrow> status e = SKIPPED \<and> error e = Some msg
          | Inl StorageError \<Rightarrow> False
          | Inr res \<Rightarrow>
              (case calls_create example_service (requests example_after_first)
                      (twiml_of (task_message ?t3)) (task_number ?t3)
                      (from_number example_service) of
                 Created s d \<Rightarrow> status e = SUCCESS
               | TwilioRestException detail \<Rightarrow>
                   status e = FAILED \<and> error e = strip_ansi (Some detail)
               | OtherException detail \<Rightarrow>
                   status e = FAILED \<and>
                   error e = strip_ansi (Some (''Unexpected error: '' @ detail))))"
    by blast
  then have failed:
    "map_option status
       (rows (snd (process_task example_service ?t3 example_after_first)) 3) = Some FAILED \<and>
     map_option error
       (rows (snd (process_task example_service ?t3 example_after_first)) 3) =
       Some (Some ''HTTP 400'')"
    unfolding ids gate3 client by (auto simp: strip_ansi_http_400)
  note runS = transport_errors_contained
    [of example_service "[]" ?wS "[]" "[]" ?t1 "[?t2, ?t3]"]
  have opsS: "True \<in> set (take (storage_ops ?t1 ?wS) (faults ?wS))"
    unfolding storage_ops_def ids by (simp add: example_batch_unfold)
  with runS have "fst (process_task example_service ?t1 ?wS) = Inl StorageError"
    by simp
  with runS have "execute_call_sequence example_service (?t1 # [?t2, ?t3]) ?wS =
      (Inl StorageError, snd (process_task example_service ?t1 ?wS))"
    by blast
  then have storage: "execute_call_sequence example_service example_tasks ?wS =
      (Inl StorageError, snd (process_task example_service ?t1 ?wS))"
    by (metis ts(1))
  note runL = transport_errors_contained
    [of example_service "[]" ?wL "[]" "[?t2, ?t3]" ?t1 "[]"]
  have kL: "keyed ?wL"
    using keyed_example_batch by (simp add: keyed_def)
  have rL: "rows ?wL (task_id ?t1) \<noteq> None"
    unfolding ids by (simp add: example_batch_unfold)
  have oL: "task_id ?t1 \<notin> task_id ` set [?t2, ?t3]"
    by (simp add: example_tasks_def)
  have "True \<notin> set (take (storage_ops ?t1 ?wL) (faults ?wL))"
    unfolding storage_ops_def ids by (simp add: example_batch_unfold)
  with runL have "fst (process_task example_service ?t1 ?wL) = Inr ()"
    by simp
  then have okL: "fst (execute_call_sequence example_service ([] @ [?t1]) ?wL) = Inr ()"
    by (cases "process_task example_service ?t1 ?wL") simp
  from runL kL rL oL okL
  have "\<exists>e. rows (snd (execute_call_sequence example_service ([] @ ?t1 # [?t2, ?t3]) ?wL))
               (task_id ?t1) = Some e \<and> terminal (status e)"
    by blast
  then have later: "\<exists>e. rows (snd (execute_call_sequence example_service example_tasks ?wL)) 1 =
      Some e \<and> terminal (status e)"
    by (metis ts(2) ids(1))
  have abortL: "fst (execute_call_sequence example_service example_tasks ?wL) = Inl StorageError"
    by (simp add: example_tasks_def example_service_def example_batch_unfold run_defs
        queued_entry_def)
  from a keyed_example_batch old b gate p2 skipped client p3 failed opsS storage abortL later
  show ?thesis
    unfolding list_all_iff by blast
qed

text \<open>
  C7, as the claim states it, fails for the storage: when the commit of the outcome of
  the first task raises, the exception leaves the run, the first record stays
  \<open>in_progress\<close> and the two other tasks are never processed.
\<close>

theorem storage_error_counterexample:
  "fst (execute_call_sequence example_service example_tasks
          (example_batch\<lparr>faults := [False, False, False, True]\<rparr>)) = Inl StorageError \<and>
   map_option status
     (rows (snd (execute_call_sequence example_service example_tasks
          (example_batch\<lparr>faults := [False, False, False, True]\<rparr>))) 1) = Some IN_PROGRESS \<and>
   map_option status
     (rows (snd (execute_call_sequence example_service example_tasks
          (example_batch\<lparr>faults := [False, False, False, True]\<rparr>))) 2) = Some QUEUED \<and>
   map_option status
     (rows (snd (execute_call_sequence example_service example_tasks
          (example_batch\<lparr>faults := [False, False, False, True]\<rparr>))) 3) = Some QUEUED"
  by (simp add: example_tasks_def example_service_def example_batch_unfold run_defs
      queued_entry_def)

section \<open>The records of the application\<close>

lemma fold_write_row_next_id [simp]: "next_id (fold write_row P v) = next_id v"
  by (induction P arbitrary: v) (simp_all add: write_row_def log_event_def)

lemma enqueue_calls_frame:
  assumes ok: "enqueue_calls numbers message w = (Inr tasks, w')"
  shows "next_id w' = next_id w + int (length numbers)"
    and "i < next_id w \<or> next_id w + int (length numbers) \<le> i \<Longrightarrow> rows w' i = rows w i"
proof -
  obtain r w1 where l: "enqueue_loop numbers message [] [] w = (r, w1)"
    by (cases "enqueue_loop numbers message [] [] w")
  from ok l obtain P T where r: "r = Inr (P, T)"
    by (cases r) (auto simp: enqueue_calls_def)
  obtain r2 w2 where c: "commit_pending P w1 = (r2, w2)"
    by (cases "commit_pending P w1")
  from ok l r c have r2: "r2 = Inr ()" and w2': "w2 = w'"
    by (auto simp: enqueue_calls_def split: sum.splits)
  from enqueue_loop_Inr [OF l [unfolded r]] obtain news newt where
    "P = [] @ news" "length news = length numbers"
    "\<forall>k < length numbers.
        news ! k =
          queued_entry (next_id w + int (length ([] :: CallLog list) + k)) (numbers ! k)
            message (clock w) \<and>
        newt ! k = \<lparr>task_id = next_id w + int (length ([] :: CallLog list) + k),
                    task_number = numbers ! k, task_message = message\<rparr>"
    "rows w1 = rows w" "next_id w1 = next_id w"
    by blast
  then have len: "length P = length numbers"
    and nth: "\<And>k. k < length numbers \<Longrightarrow>
        P ! k = queued_entry (next_id w + int k) (numbers ! k) message (clock w)"
    and w1: "rows w1 = rows w" "next_id w1 = next_id w"
    by simp_all
  obtain w1' where so: "storage_op w1 = (Inr (), w1')"
    and w2: "rows w2 = rows (fold write_row P w1')" "next_id w2 = next_id w1' + int (length P)"
    using c r2 by (cases "storage_op w1") (auto simp: commit_pending_def split: sum.splits)
  from storage_opD [OF so] w1 have w1': "rows w1' = rows w"
    "next_id w1' = next_id w" by simp_all
  show "next_id w' = next_id w + int (length numbers)"
    using w2 w2' w1' len by simp
  show "rows w' i = rows w i"
    if i: "i < next_id w \<or> next_id w + int (length numbers) \<le> i"
  proof -
    have "i \<notin> log_id ` set P"
    proof
      assume "i \<in> log_id ` set P"
      then obtain k where "k < length P" "i = log_id (P ! k)"
        by (auto simp: in_set_conv_nth)
      with nth [of k] len have "i = next_id w + int k" "k < length numbers"
        by (simp_all add: queued_entry_def)
      with i show False by simp
    qed
    from commit_rows_other [OF this, of w1'] show ?thesis
      using w2 w2' w1' by simp
  qed
qed




lemma enqueue_loop_next_id:
  "enqueue_loop nums msg pend tasks w = (r, w1) \<Longrightarrow> next_id w1 = next_id w"
proof (induction nums arbitrary: pend tasks w)
  case Nil
  then show ?case by simp
next
  case (Cons num nums)
  obtain r' w' where f: "session_flush num msg pend w = (r', w')"
    by (cases "session_flush num msg pend w")
  from session_flush_cases [OF f] have eq: "next_id w' = next_id w" by simp
  show ?case
  proof (cases r')
    case (Inl e)
    with Cons.prems f eq show ?thesis by simp
  next
    case (Inr entry)
    with Cons.prems f have "enqueue_loop nums msg (pend @ [entry])
        (tasks @ [\<lparr>task_id = log_id entry, task_number = log_number entry,
                   task_message = (case log_message entry of None \<Rightarrow> [] | Some m \<Rightarrow> m)\<rparr>])
        w' = (r, w1)" by simp
    from Cons.IH [OF this] eq show ?thesis by simp
  qed
qed

lemma enqueue_calls_failed:
  assumes bad: "enqueue_calls numbers message w = (Inl e, w1)"
  shows "rows w1 = rows w \<and> next_id w1 = next_id w"
proof -
  have "rows w1 = rows w"
    using enqueue_calls_Inl [of numbers message w e] bad by simp
  moreover have "next_id w1 = next_id w"
  proof -
    obtain r w2 where l: "enqueue_loop numbers message [] [] w = (r, w2)"
      by (cases "enqueue_loop numbers message [] [] w")
    note eq = enqueue_loop_next_id [OF l]
    show ?thesis
    proof (cases r)
      case (Inl x)
      with bad l eq show ?thesis by (simp add: enqueue_calls_def)
    next
      case (Inr PT)
      obtain P T where PT: "PT = (P, T)" by (cases PT)
      obtain r2 w3 where c: "commit_pending P w2 = (r2, w3)"
        by (cases "commit_pending P w2")
      from bad l Inr PT c obtain e2 where r2: "r2 = Inl e2" and w3: "w3 = w1"
        by (cases r2) (auto simp: enqueue_calls_def)
      have "next_id w3 = next_id w2"
        using c r2 by (cases "storage_op w2")
          (auto simp: commit_pending_def split: sum.splits dest: storage_opD)
      with w3 eq show ?thesis by simp
    qed
  qed
  ultimately show ?thesis by simp
qed







text \<open>
  In every state, whatever the environment does, \<open>next_id\<close> is the key sqlite gives to the
  next row: one more than the largest key of the table, 1 in the empty table.
\<close>

lemma reachable_next_key:
  "reachable allowed svc s \<Longrightarrow> keyed (fst s) \<and> next_key_ok (fst s)"
proof (induction rule: reachable.induct)
  case (start w)
  then show ?case by (simp add: keyed_def next_key_ok_def)
next
  case (env s s')
  from env.hyps(2) env.IH show ?case
  proof cases
    case (faults_change w q fs)
    with env.IH show ?thesis by (simp add: keyed_def next_key_ok_def)
  next
    case (row_deleted w i n q)
    with env.IH have k: "keyed w" and nk: "next_key_ok w" by simp_all
    let ?w' = "w\<lparr>rows := (rows w)(i := None), next_id := n\<rparr>"
    have sub: "rows w j = Some e" if "rows ?w' j = Some e" for j e
      using that by (simp split: if_splits)
    have "keyed ?w'"
      using k sub unfolding keyed_def by blast
    moreover have "next_key_ok ?w'"
      unfolding next_key_ok_def
    proof (intro conjI allI impI)
      fix j e assume r: "rows ?w' j = Some e"
      from nk sub [OF r] show "1 \<le> j" by (auto simp: next_key_ok_def)
      from r row_deleted(3) show "j < next_id ?w'" by simp
    next
      from row_deleted(4) show "next_id ?w' = 1 \<or> rows ?w' (next_id ?w' - 1) \<noteq> None"
        by simp
    qed
    ultimately show ?thesis using row_deleted(2) by simp
  qed
next
  case (core s s')
  from core.hyps(2) show ?case
  proof cases
    case (queued numbers message w tasks w1 q)
    with core.IH have k: "keyed w" and nk: "next_key_ok w" by simp_all
    let ?n = "length numbers"
    have one: "1 \<le> next_id w"
      using nk by (auto simp: next_key_ok_def)
    have fst_ok: "fst (enqueue_calls numbers message w) = Inr tasks"
      and snd_ok: "snd (enqueue_calls numbers message w) = w1"
      using queued(3) by simp_all
    note facts = enqueue_calls_Inr [OF fst_ok, unfolded snd_ok]
    note frame = enqueue_calls_frame [OF queued(3)]
    have new: "rows w1 (next_id w + int k) =
           Some (queued_entry (next_id w + int k) (numbers ! k) message (clock w))"
      if "k < ?n" for k
      using facts(3) [OF that] .
    have row_cases: "(i < next_id w \<and> rows w i = Some e) \<or>
      (\<exists>k < ?n. i = next_id w + int k \<and> e = queued_entry i (numbers ! k) message (clock w))"
      if r: "rows w1 i = Some e" for i e
    proof (cases "i < next_id w \<or> next_id w + int ?n \<le> i")
      case True
      with frame(2) [of i] r have "rows w i = Some e" by simp
      with nk show ?thesis by (auto simp: next_key_ok_def)
    next
      case False
      then have "nat (i - next_id w) < ?n" "i = next_id w + int (nat (i - next_id w))"
        by auto
      with new [of "nat (i - next_id w)"] r show ?thesis
        by (metis option.inject)
    qed
    have k1: "keyed w1"
      unfolding keyed_def
    proof (intro allI impI)
      fix i e assume "rows w1 i = Some e"
      from row_cases [OF this] k show "log_id e = i"
        by (auto simp: keyed_def queued_entry_def)
    qed
    have nk1: "next_key_ok w1"
      unfolding next_key_ok_def
    proof (intro conjI allI impI)
      fix i e assume r: "rows w1 i = Some e"
      from row_cases [OF r] nk one show "1 \<le> i" by (auto simp: next_key_ok_def)
      from row_cases [OF r] frame(1) show "i < next_id w1" by auto
    next
      show "next_id w1 = 1 \<or> rows w1 (next_id w1 - 1) \<noteq> None"
      proof (cases "?n = 0")
        case True
        with frame nk show ?thesis by (auto simp: next_key_ok_def)
      next
        case False
        then have lt: "?n - 1 < ?n" by simp
        from False have "int (?n - 1) = int ?n - 1"
          by (cases numbers) simp_all
        with frame(1) have "next_id w + int (?n - 1) = next_id w1 - 1"
          by simp
        with new [OF lt] show ?thesis by simp
      qed
    qed
    from k1 nk1 queued(2) show ?thesis by simp
  next
    case (not_queued numbers message w e w1 q)
    with core.IH have "keyed w" "next_key_ok w" by simp_all
    with enqueue_calls_failed [OF not_queued(3)] not_queued(2) show ?thesis
      by (simp add: keyed_def next_key_ok_def)
  next
    case (task_done t w w1 q1 ts q2)
    with core.IH have k: "keyed w" and nk: "next_key_ok w" by simp_all
    note step = process_task_rows [OF task_done(3) k]
    have same: "rows w1 i = None \<longleftrightarrow> rows w i = None" for i
      using step by (cases "i = task_id t") (auto split: option.splits)
    have nid: "next_id w1 = next_id w" using step by simp
    have "next_key_ok w1"
      unfolding next_key_ok_def nid
    proof (intro conjI allI impI)
      fix i e assume "rows w1 i = Some e"
      with same [of i] obtain e' where "rows w i = Some e'" by auto
      with nk show "1 \<le> i" "i < next_id w" by (auto simp: next_key_ok_def)
    next
      from nk same [of "next_id w - 1"]
      show "next_id w = 1 \<or> rows w1 (next_id w - 1) \<noteq> None"
        by (auto simp: next_key_ok_def)
    qed
    with step task_done(2) show ?thesis by simp
  next
    case (batch_aborted t w e w1 q1 ts q2)
    with core.IH have k: "keyed w" and nk: "next_key_ok w" by simp_all
    note step = process_task_rows [OF batch_aborted(3) k]
    have same: "rows w1 i = None \<longleftrightarrow> rows w i = None" for i
      using step by (cases "i = task_id t") (auto split: option.splits)
    have nid: "next_id w1 = next_id w" using step by simp
    have "next_key_ok w1"
      unfolding next_key_ok_def nid
    proof (intro conjI allI impI)
      fix i e assume "rows w1 i = Some e"
      with same [of i] obtain e' where "rows w i = Some e'" by auto
      with nk show "1 \<le> i" "i < next_id w" by (auto simp: next_key_ok_def)
    next
      from nk same [of "next_id w - 1"]
      show "next_id w = 1 \<or> rows w1 (next_id w - 1) \<noteq> None"
        by (auto simp: next_key_ok_def)
    qed
    with step batch_aborted(2) show ?thesis by simp
  qed
qed











end
